theory Spec2Isabelle
  imports Main
begin

section \<open>Strings: the library helpers the extractor calls\<close>

text \<open>
  Go strings are byte sequences; they are modelled as \<open>string\<close> (a list of
  8-bit characters). \<open>strings_Split s sep\<close> is \<open>strings.Split(s, sep)\<close> for a
  one-byte separator: n occurrences of the separator give n + 1 pieces, and the
  empty string gives the single piece \<open>''''\<close>.
\<close>

fun strings_Split :: "string \<Rightarrow> char \<Rightarrow> string list" where
  "strings_Split [] sep = [[]]"
| "strings_Split (c # cs) sep =
     (if c = sep then [] # strings_Split cs sep
      else (case strings_Split cs sep of
              [] \<Rightarrow> [[c]]
            | seg # segs \<Rightarrow> (c # seg) # segs))"

text \<open>
  \<open>strconv_Atoi\<close> is \<open>strconv.Atoi\<close> on a platform with 64-bit \<open>int\<close>: an
  optional sign (\<open>+\<close> or \<open>-\<close>), then one or more decimal digits and nothing else; a value
  outside the range of \<open>int\<close> is an error (\<open>None\<close>), as is every other string.
\<close>

definition is_digit :: "char \<Rightarrow> bool" where
  "is_digit c = (48 \<le> (of_char c :: nat) \<and> (of_char c :: nat) \<le> 57)"

definition digit_value :: "char \<Rightarrow> nat" where
  "digit_value c = (of_char c :: nat) - 48"

fun parse_digits :: "string \<Rightarrow> nat \<Rightarrow> nat option" where
  "parse_digits [] n = Some n"
| "parse_digits (c # cs) n =
     (if is_digit c then parse_digits cs (n * 10 + digit_value c) else None)"

definition strconv_Atoi :: "string \<Rightarrow> int option" where
  "strconv_Atoi s =
     (case s of
        [] \<Rightarrow> None
      | c # cs \<Rightarrow>
          (let neg = (c = CHR ''-'');
               ds = (if c = CHR ''-'' \<or> c = CHR ''+'' then cs else s)
           in if ds = [] then None
              else (case parse_digits ds 0 of
                      None \<Rightarrow> None
                    | Some n \<Rightarrow>
                        (let v = (if neg then - int n else int n)
                         in if - (2 ^ 63) \<le> v \<and> v \<le> 2 ^ 63 - 1 then Some v else None))))"

section \<open>The token cursor: \<open>jsontext.Decoder\<close>\<close>

text \<open>
  The decoder is an external collaborator (Go's \<open>encoding/json/jsontext\<close>). It is
  modelled as a forward-only cursor over the sequence of tokens it delivers for the
  bytes it reads. \<open>TString\<close> carries the unescaped string value, \<open>TNumber\<close> the
  number as written. \<open>TBad k\<close> stands for the first place where the decoder rejects
  the input (a syntax error, a duplicate object name, a token that is not allowed
  where it stands); \<open>k\<close> is the kind \<open>PeekKind\<close> reports there, which the decoder
  derives from the first byte only. The end of the list is the end of the input.
\<close>

datatype kind =
    KInvalid | KNull | KFalse | KTrue | KString | KNumber
  | KObjStart | KObjEnd | KArrStart | KArrEnd

datatype token =
    TNull | TFalse | TTrue | TString string | TNumber string
  | TObjStart | TObjEnd | TArrStart | TArrEnd | TBad kind

fun token_Kind :: "token \<Rightarrow> kind" where
  "token_Kind TNull = KNull"
| "token_Kind TFalse = KFalse"
| "token_Kind TTrue = KTrue"
| "token_Kind (TString s) = KString"
| "token_Kind (TNumber n) = KNumber"
| "token_Kind TObjStart = KObjStart"
| "token_Kind TObjEnd = KObjEnd"
| "token_Kind TArrStart = KArrStart"
| "token_Kind TArrEnd = KArrEnd"
| "token_Kind (TBad k) = k"

text \<open>
  \<open>Token.String()\<close>: the unescaped value of a string token, the raw JSON text of any
  other token. (\<open>ReadToken\<close> never returns \<open>TBad\<close>.)
\<close>

fun token_String :: "token \<Rightarrow> string" where
  "token_String TNull = ''null''"
| "token_String TFalse = ''false''"
| "token_String TTrue = ''true''"
| "token_String (TString s) = s"
| "token_String (TNumber n) = n"
| "token_String TObjStart = ''{''"
| "token_String TObjEnd = ''}''"
| "token_String TArrStart = ''[''"
| "token_String TArrEnd = '']''"
| "token_String (TBad k) = []"

text \<open>
  The dynamic value \<open>any\<close> that \<open>UnmarshalDecode\<close> builds: \<open>nil\<close>, \<open>bool\<close>,
  \<open>float64\<close>, \<open>string\<close>, \<open>[]any\<close> and \<open>map[string]any\<close>. Every JSON number
  becomes the one number variant \<open>AFloat64\<close>, which stands for the \<open>float64\<close> nearest
  to the number it carries, written as in the document. A Go map is kept as its
  entries in document order.
\<close>

datatype any =
    ANil | ABool bool | AFloat64 string | AString string
  | ASlice "any list" | AMap "(string \<times> any) list"

datatype dec_error = EndOfInput | SyntaxError | RangeError

text \<open>
  \<open>jsonwire.ParseFloat(b, 64)\<close>, by which \<open>UnmarshalDecode\<close> converts a number to
  \<open>float64\<close>. The decoder delivers a number as an optional minus sign, digits, an
  optional fraction and an optional exponent; \<open>number_parts\<close> reads off the
  digits \<open>m\<close> of the integer and fraction parts and the power of ten \<open>e\<close> they are scaled by, so that the
  magnitude is \<open>m * 10 ^ e\<close>. \<open>strconv.ParseFloat\<close> rounds to the nearest \<open>float64\<close>,
  ties to even, and reports a range error when that is infinite: when the magnitude
  reaches \<open>2 ^ 1024 - 2 ^ 970\<close>, halfway between the largest \<open>float64\<close> and
  \<open>2 ^ 1024\<close>. A magnitude too small for \<open>float64\<close> rounds to zero without an error.
  Any other text is an error.
\<close>

definition decimal_value :: "string \<Rightarrow> int" where
  "decimal_value ds = foldl (\<lambda>n c. n * 10 + int (digit_value c)) 0 ds"

definition exponent_part :: "string \<Rightarrow> int option" where
  "exponent_part s =
     (case s of
        [] \<Rightarrow> Some 0
      | c # r \<Rightarrow>
          if c = CHR ''e'' \<or> c = CHR ''E'' then
            (let neg = (case r of [] \<Rightarrow> False | d # r' \<Rightarrow> d = CHR ''-'');
                 ds = (case r of [] \<Rightarrow> [] | d # r' \<Rightarrow> if d = CHR ''-'' \<or> d = CHR ''+'' then r' else r)
             in if ds = [] \<or> \<not> list_all is_digit ds then None
                else Some (if neg then - decimal_value ds else decimal_value ds))
          else None)"

definition number_parts :: "string \<Rightarrow> (int \<times> int) option" where
  "number_parts s =
     (let s1 = (case s of [] \<Rightarrow> [] | c # r \<Rightarrow> if c = CHR ''-'' then r else s);
          ip = takeWhile is_digit s1;
          r1 = dropWhile is_digit s1;
          dot = (case r1 of [] \<Rightarrow> False | c # r \<Rightarrow> c = CHR ''.'');
          fp = (if dot then takeWhile is_digit (tl r1) else []);
          r2 = (if dot then dropWhile is_digit (tl r1) else r1)
      in if ip = [] \<or> (dot \<and> fp = []) then None
         else (case exponent_part r2 of
                 None \<Rightarrow> None
               | Some x \<Rightarrow> Some (decimal_value (ip @ fp), x - int (length fp))))"

definition float64_overflow :: "int \<Rightarrow> int \<Rightarrow> bool" where
  "float64_overflow m e =
     (if 0 \<le> e then 2 ^ 1024 - 2 ^ 970 \<le> m * 10 ^ nat e
      else (2 ^ 1024 - 2 ^ 970) * 10 ^ nat (- e) \<le> m)"

definition ParseFloat_ok :: "string \<Rightarrow> bool" where
  "ParseFloat_ok s =
     (case number_parts s of
        None \<Rightarrow> False
      | Some (m, e) \<Rightarrow> \<not> float64_overflow m e)"

text \<open>
  Reading one complete value off the token sequence, with a stack of the containers
  that are still open: the elements read so far (latest first), and for an object
  the name whose value is awaited. \<open>SkipValue\<close> reads a value for its syntax only;
  \<open>UnmarshalDecode\<close> converts each number as it comes to it and stops at the first
  that is out of range (\<open>floats\<close> tells the two apart).
\<close>

datatype frame = InArray "any list" | InObject "(string \<times> any) list" "string option"

datatype step = Done any | Next "frame list" | Reject | OutOfRange

fun put :: "any \<Rightarrow> frame list \<Rightarrow> step" where
  "put v [] = Done v"
| "put v (InArray vs # st) = Next (InArray (v # vs) # st)"
| "put v (InObject ms (Some k) # st) = Next (InObject ((k, v) # ms) None # st)"
| "put v (InObject ms None # st) = Reject"

definition awaits_name :: "frame list \<Rightarrow> bool" where
  "awaits_name st = (case st of InObject ms None # st' \<Rightarrow> True | _ \<Rightarrow> False)"

definition feed :: "bool \<Rightarrow> token \<Rightarrow> frame list \<Rightarrow> step" where
  "feed floats t st =
     (if awaits_name st then
        (case t of
           TString s \<Rightarrow> (case st of InObject ms n # st' \<Rightarrow> Next (InObject ms (Some s) # st') | _ \<Rightarrow> Reject)
         | TObjEnd \<Rightarrow> (case st of InObject ms n # st' \<Rightarrow> put (AMap (rev ms)) st' | _ \<Rightarrow> Reject)
         | _ \<Rightarrow> Reject)
      else
        (case t of
           TNull \<Rightarrow> put ANil st
         | TFalse \<Rightarrow> put (ABool False) st
         | TTrue \<Rightarrow> put (ABool True) st
         | TString s \<Rightarrow> put (AString s) st
         | TNumber n \<Rightarrow> if floats \<and> \<not> ParseFloat_ok n then OutOfRange else put (AFloat64 n) st
         | TObjStart \<Rightarrow> Next (InObject [] None # st)
         | TArrStart \<Rightarrow> Next (InArray [] # st)
         | TArrEnd \<Rightarrow> (case st of InArray vs # st' \<Rightarrow> put (ASlice (rev vs)) st' | _ \<Rightarrow> Reject)
         | TObjEnd \<Rightarrow> Reject
         | TBad k \<Rightarrow> Reject))"

fun read_value :: "bool \<Rightarrow> frame list \<Rightarrow> token list \<Rightarrow> dec_error + (any \<times> token list)" where
  "read_value floats st [] = Inl EndOfInput"
| "read_value floats st (t # ts) =
     (case feed floats t st of
        Done v \<Rightarrow> Inr (v, ts)
      | Next st' \<Rightarrow> read_value floats st' ts
      | Reject \<Rightarrow> Inl SyntaxError
      | OutOfRange \<Rightarrow> Inl RangeError)"

text \<open>
  The decoder's state: the tokens not yet consumed, and the calls made on it so far
  (oldest first). A call that fails leaves the tokens where they were; the extractor
  never uses a decoder again after a failed call.
\<close>

datatype dec_call = CallPeekKind | CallReadToken | CallSkipValue | CallUnmarshalDecode

record decoder =
  toks :: "token list"
  calls :: "dec_call list"

definition NewDecoder :: "(string \<Rightarrow> token list) \<Rightarrow> string \<Rightarrow> decoder" where
  "NewDecoder tokenize bytes = \<lparr>toks = tokenize bytes, calls = []\<rparr>"

definition logged :: "dec_call \<Rightarrow> decoder \<Rightarrow> decoder" where
  "logged c d = d\<lparr>calls := calls d @ [c]\<rparr>"

definition PeekKind :: "decoder \<Rightarrow> kind \<times> decoder" where
  "PeekKind d =
     ((case toks d of [] \<Rightarrow> KInvalid | t # ts \<Rightarrow> token_Kind t), logged CallPeekKind d)"

definition ReadToken :: "decoder \<Rightarrow> (dec_error + token) \<times> decoder" where
  "ReadToken d =
     (case toks d of
        [] \<Rightarrow> (Inl EndOfInput, logged CallReadToken d)
      | TBad k # ts \<Rightarrow> (Inl SyntaxError, logged CallReadToken d)
      | t # ts \<Rightarrow> (Inr t, logged CallReadToken (d\<lparr>toks := ts\<rparr>)))"

definition SkipValue :: "decoder \<Rightarrow> dec_error option \<times> decoder" where
  "SkipValue d =
     (case read_value False [] (toks d) of
        Inl e \<Rightarrow> (Some e, logged CallSkipValue d)
      | Inr (v, ts) \<Rightarrow> (None, logged CallSkipValue (d\<lparr>toks := ts\<rparr>)))"

definition UnmarshalDecode :: "decoder \<Rightarrow> (dec_error + any) \<times> decoder" where
  "UnmarshalDecode d =
     (case read_value True [] (toks d) of
        Inl e \<Rightarrow> (Inl e, logged CallUnmarshalDecode d)
      | Inr (v, ts) \<Rightarrow> (Inr v, logged CallUnmarshalDecode (d\<lparr>toks := ts\<rparr>)))"

section \<open>Errors\<close>

text \<open>The sentinel errors of the package, one constructor for each.\<close>

datatype sentinel =
    ErrJSONBodyCannotBeEmpty
  | ErrJSONIndexOutOfRange
  | ErrJSONPathContainsEmptySegment
  | ErrJSONPathExpectedArrayAtSegment
  | ErrJSONPathExpectedObjectAtSegment
  | ErrJSONPathSegmentNotFound
  | ErrJSONPathTraversalFailed
  | ErrJSONReadFailed
  | ErrJSONStreamingParseFailed
  | ErrJSONTokenReadFailed
  | ErrJSONUnmarshalFailed
  | ErrJSONValueSelectorCannotBeEmpty
  | ErrJSONSelectorNotFound
  | ErrExtractingFromJSONByReader
  | ErrExtractingFromJSONBytes
  | ErrExtractingJSONBodyValues
  | ErrFailedToExtractValueFromJSON

text \<open>
  The arguments of the variadic error constructors (\<open>parts ...any\<close>): errors
  (sentinels, or a cause), and the keys and values of the diagnostic context. The value
  of \<open>kind.String()\<close> is kept as the kind itself.
\<close>

datatype 'e part =
    PError 'e
  | PString string
  | PInt int
  | PStrings "string list"
  | PKind kind
  | PSelector string
  | PSelectors "string list"

datatype error =
    Sentinel sentinel
  | DecoderError dec_error
  | ReaderError string
  | Composite "error part list"
  | Joined "error list"

abbreviation sentinelPart :: "sentinel \<Rightarrow> error part" where
  "sentinelPart x \<equiv> PError (Sentinel x)"

text \<open>
  Modelled from the spec: \<open>NewErr\<close>, \<open>WithErr\<close> and \<open>CombineErrs\<close> are functions
  of this package whose file is not among the sources. The spec describes an error as
  a small ordered list of error kinds with a payload of named fields and an optional
  wrapped cause, each kind keeping a stable identity, and the aggregated error as the
  composite of the per-selector errors, each of which stays inspectable, present iff
  there is at least one. An error built from parts is therefore kept as its parts.
\<close>

definition NewErr :: "error part list \<Rightarrow> error" where
  "NewErr parts = Composite parts"

definition WithErr :: "error part list \<Rightarrow> error" where
  "WithErr parts = Composite parts"

definition CombineErrs :: "error list \<Rightarrow> error option" where
  "CombineErrs errs = (if errs = [] then None else Some (Joined errs))"

text \<open>
  Modelled from the spec: \<open>errors_Is e s\<close> is \<open>errors.Is(e, s)\<close> for a sentinel
  \<open>s\<close>: the categories an error reports are the sentinels among its parts, those of
  its cause, and those of every error it joins.
\<close>

fun errors_Is :: "error \<Rightarrow> sentinel \<Rightarrow> bool" where
  "errors_Is (Sentinel s) t = (s = t)"
| "errors_Is (DecoderError e) t = False"
| "errors_Is (ReaderError m) t = False"
| "errors_Is (Composite ps) t =
     list_ex (\<lambda>p. case p of PError e \<Rightarrow> errors_Is e t | _ \<Rightarrow> False) ps"
| "errors_Is (Joined es) t = list_ex (\<lambda>e. errors_Is e t) es"

text \<open>
  The diagnostic context of an error built from parts: after the leading errors the
  parts come in pairs, a key and its value.
\<close>

fun context_pairs :: "error part list \<Rightarrow> (string \<times> error part) list" where
  "context_pairs (PString k # v # ps) = (k, v) # context_pairs ps"
| "context_pairs (p # ps) = context_pairs ps"
| "context_pairs [] = []"

fun context_value :: "error \<Rightarrow> string \<Rightarrow> error part option" where
  "context_value (Composite ps) k = map_of (context_pairs ps) k"
| "context_value e k = None"

section \<open>The extraction session (\<open>extract_state.go\<close>)\<close>

record extractState =
  decoder :: decoder
  selector :: string
  segments :: "string list"
  pathProgress :: "string list"
  position :: nat
  rawBytes :: string

definition newExtractState :: "decoder \<Rightarrow> string \<Rightarrow> string \<Rightarrow> extractState" where
  "newExtractState d sel raw =
     \<lparr>decoder = d, selector = sel, segments = strings_Split sel CHR ''.'',
      pathProgress = [], position = 0, rawBytes = raw\<rparr>"

subsection \<open>The rendering of the document in an error\<close>

definition replace_byte :: "char \<Rightarrow> char \<Rightarrow> string \<Rightarrow> string" where
  "replace_byte old new s = map (\<lambda>c. if c = old then new else c) s"

fun has_double_space :: "string \<Rightarrow> bool" where
  "has_double_space (a # b # s) = ((a = CHR '' '' \<and> b = CHR '' '') \<or> has_double_space (b # s))"
| "has_double_space s = False"

text \<open>\<open>strings.ReplaceAll(s, "  ", " ")\<close>: the matches are taken from the left and do not overlap.\<close>

fun replace_double_space :: "string \<Rightarrow> string" where
  "replace_double_space (a # b # s) =
     (if a = CHR '' '' \<and> b = CHR '' '' then CHR '' '' # replace_double_space s
      else a # replace_double_space (b # s))"
| "replace_double_space s = s"

function collapse_spaces :: "string \<Rightarrow> string" where
  "collapse_spaces s =
     (if has_double_space s then collapse_spaces (replace_double_space s) else s)"
  by pat_completeness auto
termination
proof (relation "measure length")
  fix s :: string
  assume dbl: "has_double_space s"
  have le: "length (replace_double_space t) \<le> length t" for t
    by (induction t rule: replace_double_space.induct) auto
  have "has_double_space t \<Longrightarrow> length (replace_double_space t) < length t" for t
  proof (induction t rule: replace_double_space.induct)
    case (1 a b t)
    then show ?case
      using le [of t] by (auto split: if_splits)
  qed auto
  with dbl show "(replace_double_space s, s) \<in> measure length"
    by simp
qed simp

fun LastIndex_from :: "string \<Rightarrow> char \<Rightarrow> int \<Rightarrow> int \<Rightarrow> int" where
  "LastIndex_from [] c i found = found"
| "LastIndex_from (x # xs) c i found = LastIndex_from xs c (i + 1) (if x = c then i else found)"

text \<open>\<open>strings.LastIndex(s, c)\<close> for a one-byte \<open>c\<close>: the last position of \<open>c\<close>, or -1.\<close>

definition strings_LastIndex :: "string \<Rightarrow> char \<Rightarrow> int" where
  "strings_LastIndex s c = LastIndex_from s c 0 (- 1)"

text \<open>
  \<open>truncateAtJSONBoundary\<close>; its one caller passes \<open>maxLen = 200\<close>, so the slices
  \<open>jsonStr[:maxLen-10]\<close> and \<open>jsonStr[:cutPoint]\<close> are in range whenever they are taken.
\<close>

definition truncateAtJSONBoundary :: "string \<Rightarrow> nat \<Rightarrow> string" where
  "truncateAtJSONBoundary jsonStr maxLen =
     (if length jsonStr \<le> maxLen then jsonStr
      else
        (let truncated = take (maxLen - 10) jsonStr;
             lastComma = strings_LastIndex truncated CHR '','';
             lastBrace = strings_LastIndex truncated CHR ''}'';
             lastBracket = strings_LastIndex truncated CHR '']'';
             cutPoint0 = lastComma;
             cutPoint1 = (if lastBrace > cutPoint0 then lastBrace + 1 else cutPoint0);
             cutPoint = (if lastBracket > cutPoint1 then lastBracket + 1 else cutPoint1)
         in if cutPoint > 50 then take (nat cutPoint) jsonStr @ ''...[more]''
            else take (maxLen - 10) jsonStr @ ''...[more]''))"

definition condensedJSON :: "extractState \<Rightarrow> string" where
  "condensedJSON s =
     (if length (rawBytes s) = 0 then ''JSON not available''
      else if length (rawBytes s) \<le> 100 then rawBytes s
      else
        (let formatted = collapse_spaces
               (replace_byte (CHR 0x09) CHR '' '' (replace_byte (CHR 0x0A) CHR '' '' (rawBytes s)))
         in if length formatted > 200 then truncateAtJSONBoundary formatted 200
            else formatted))"

subsection \<open>The error context builder\<close>

definition is_error_part :: "error part \<Rightarrow> bool" where
  "is_error_part p = (case p of PError e \<Rightarrow> True | _ \<Rightarrow> False)"

definition enrichError :: "extractState \<Rightarrow> error part list \<Rightarrow> error" where
  "enrichError s parts =
     (let sentinelCount = length (takeWhile is_error_part parts) in
      NewErr
        (take sentinelCount parts
         @ [PString ''json_path'', PString (selector s)]
         @ (if position s < length (segments s)
            then [PString ''segment'', PString (segments s ! position s),
                  PString ''segment_position'', PInt (int (position s))]
            else [])
         @ (if length (pathProgress s) > 0
            then [PString ''path_progress'', PStrings (pathProgress s)]
            else [])
         @ [PString ''condensed_json'', PString (condensedJSON s)]
         @ drop sentinelCount parts))"

subsection \<open>The path navigator\<close>

text \<open>
  Every navigation function takes the session and returns the error (\<open>None\<close> for
  \<open>nil\<close>) with the session as the call leaves it: the decoder is shared by pointer
  and every call on it moves it.
\<close>

function navigateArrayIndex_loop ::
  "extractState \<Rightarrow> int \<Rightarrow> int \<Rightarrow> error option \<times> extractState \<times> int" where
  "navigateArrayIndex_loop s targetIdx currentIdx =
     (if currentIdx < targetIdx then
        (case PeekKind (decoder s) of
           (k, d1) \<Rightarrow>
             if k = KArrEnd then
               (Some (enrichError (s\<lparr>decoder := d1\<rparr>)
                        [sentinelPart ErrJSONPathTraversalFailed,
                         sentinelPart ErrJSONIndexOutOfRange,
                         PString ''target_index'', PInt targetIdx,
                         PString ''array_length'', PInt currentIdx]),
                s\<lparr>decoder := d1\<rparr>, currentIdx)
             else
               (case SkipValue d1 of
                  (Some e, d2) \<Rightarrow>
                    (Some (enrichError (s\<lparr>decoder := d2\<rparr>)
                             [sentinelPart ErrJSONPathTraversalFailed,
                              sentinelPart ErrJSONTokenReadFailed,
                              PString ''skip_index'', PInt currentIdx,
                              PError (DecoderError e)]),
                     s\<lparr>decoder := d2\<rparr>, currentIdx)
                | (None, d2) \<Rightarrow>
                    navigateArrayIndex_loop (s\<lparr>decoder := d2\<rparr>) targetIdx (currentIdx + 1)))
      else (None, s, currentIdx))"
  by pat_completeness auto
termination
  by (relation "measure (\<lambda>(s, targetIdx, currentIdx). nat (targetIdx - currentIdx))") auto

definition navigateArrayIndex :: "extractState \<Rightarrow> int \<Rightarrow> error option \<times> extractState" where
  "navigateArrayIndex s targetIdx =
     (case PeekKind (decoder s) of
        (kind, d0) \<Rightarrow>
          if targetIdx < 0 then
            (Some (enrichError (s\<lparr>decoder := d0\<rparr>)
                     [sentinelPart ErrJSONPathTraversalFailed,
                      sentinelPart ErrJSONIndexOutOfRange,
                      PString ''target_index'', PInt targetIdx]),
             s\<lparr>decoder := d0\<rparr>)
          else if kind \<noteq> KArrStart then
            (Some (enrichError (s\<lparr>decoder := d0\<rparr>)
                     [sentinelPart ErrJSONPathTraversalFailed,
                      sentinelPart ErrJSONPathExpectedArrayAtSegment,
                      PString ''expected_type'', PString ''array'',
                      PString ''actual_type'', PKind kind]),
             s\<lparr>decoder := d0\<rparr>)
          else
            (case ReadToken d0 of
               (Inl e, d1) \<Rightarrow>
                 (Some (enrichError (s\<lparr>decoder := d1\<rparr>)
                          [sentinelPart ErrJSONPathTraversalFailed,
                           sentinelPart ErrJSONTokenReadFailed,
                           PString ''expected_token'', PString ''array_start'',
                           PError (DecoderError e)]),
                  s\<lparr>decoder := d1\<rparr>)
             | (Inr t, d1) \<Rightarrow>
                 (case navigateArrayIndex_loop (s\<lparr>decoder := d1\<rparr>) targetIdx 0 of
                    (Some e, s2, currentIdx) \<Rightarrow> (Some e, s2)
                  | (None, s2, currentIdx) \<Rightarrow>
                      (case PeekKind (decoder s2) of
                         (k, d3) \<Rightarrow>
                           if k = KArrEnd then
                             (Some (enrichError (s2\<lparr>decoder := d3\<rparr>)
                                      [sentinelPart ErrJSONPathTraversalFailed,
                                       sentinelPart ErrJSONIndexOutOfRange,
                                       PString ''target_index'', PInt targetIdx,
                                       PString ''array_length'', PInt currentIdx]),
                              s2\<lparr>decoder := d3\<rparr>)
                           else (None, s2\<lparr>decoder := d3\<rparr>)))))"

text \<open>
  The key of an object member as the navigator compares it: \<open>Token.String()\<close> of the
  name token, from which one leading and one trailing double quote are removed when it
  has both (\<open>key[1 : len(key)-1]\<close>).
\<close>

definition removeQuotes :: "string \<Rightarrow> string" where
  "removeQuotes key =
     (if length key \<ge> 2 \<and> key ! 0 = CHR 0x22 \<and> key ! (length key - 1) = CHR 0x22
      then take (length key - 1 - 1) (drop 1 key)
      else key)"

function navigateObjectKey_loop ::
  "extractState \<Rightarrow> string \<Rightarrow> string list \<Rightarrow> error option \<times> extractState" where
  "navigateObjectKey_loop s targetKey availableKeys =
     (case PeekKind (decoder s) of
        (k, d1) \<Rightarrow>
          if k \<noteq> KObjEnd then
            (case ReadToken d1 of
               (Inl e, d2) \<Rightarrow>
                 (Some (enrichError (s\<lparr>decoder := d2\<rparr>)
                          [sentinelPart ErrJSONPathTraversalFailed,
                           sentinelPart ErrJSONTokenReadFailed,
                           PString ''reading'', PString ''object_key'',
                           PError (DecoderError e)]),
                  s\<lparr>decoder := d2\<rparr>)
             | (Inr keyToken, d2) \<Rightarrow>
                 (let key = removeQuotes (token_String keyToken);
                      availableKeys' = availableKeys @ [key]
                  in if key = targetKey then (None, s\<lparr>decoder := d2\<rparr>)
                     else
                       (case SkipValue d2 of
                          (Some e, d3) \<Rightarrow>
                            (Some (enrichError (s\<lparr>decoder := d3\<rparr>)
                                     [sentinelPart ErrJSONPathTraversalFailed,
                                      sentinelPart ErrJSONTokenReadFailed,
                                      PString ''skipping_key'', PString key,
                                      PError (DecoderError e)]),
                             s\<lparr>decoder := d3\<rparr>)
                        | (None, d3) \<Rightarrow>
                            navigateObjectKey_loop (s\<lparr>decoder := d3\<rparr>) targetKey availableKeys')))
          else
            (Some (enrichError (s\<lparr>decoder := d1\<rparr>)
                     [sentinelPart ErrJSONPathTraversalFailed,
                      sentinelPart ErrJSONPathSegmentNotFound,
                      PString ''missing_key'', PString targetKey,
                      PString ''available_keys'', PStrings availableKeys]),
             s\<lparr>decoder := d1\<rparr>))"
  by pat_completeness auto
termination
proof (relation "measure (\<lambda>(s, targetKey, availableKeys). length (toks (decoder s)))")
  have shorter: "read_value False st ts = Inr (v, r) \<Longrightarrow> length r < length ts" for st ts v r
  proof (induction ts arbitrary: st)
    case Nil
    then show ?case by simp
  next
    case (Cons t ts)
    then show ?case
      by (cases "feed False t st") (auto simp: less_Suc_eq dest: Cons.IH)
  qed
  fix s :: extractState and targetKey :: string and availableKeys :: "string list"
  fix k d1 r2 d2 keyToken key availableKeys' r3 d3
  assume "(k, d1) = PeekKind (decoder s)" "(r2, d2) = ReadToken d1" "r2 = Inr keyToken"
    "(r3, d3) = SkipValue d2" "r3 = None"
  then show "((s\<lparr>decoder := d3\<rparr>, targetKey, availableKeys'), s, targetKey, availableKeys)
      \<in> measure (\<lambda>(s, targetKey, availableKeys). length (toks (decoder s)))"
    by (auto simp: PeekKind_def ReadToken_def SkipValue_def logged_def
        split: list.splits token.splits sum.splits dest!: shorter)
qed simp

definition navigateObjectKey :: "extractState \<Rightarrow> string \<Rightarrow> error option \<times> extractState" where
  "navigateObjectKey s targetKey =
     (case PeekKind (decoder s) of
        (kind, d0) \<Rightarrow>
          if kind \<noteq> KObjStart then
            (Some (enrichError (s\<lparr>decoder := d0\<rparr>)
                     [sentinelPart ErrJSONPathTraversalFailed,
                      sentinelPart ErrJSONPathExpectedObjectAtSegment,
                      PString ''expected_type'', PString ''object'',
                      PString ''actual_type'', PKind kind]),
             s\<lparr>decoder := d0\<rparr>)
          else
            (case ReadToken d0 of
               (Inl e, d1) \<Rightarrow>
                 (Some (enrichError (s\<lparr>decoder := d1\<rparr>)
                          [sentinelPart ErrJSONPathTraversalFailed,
                           sentinelPart ErrJSONTokenReadFailed,
                           PString ''expected_token'', PString ''object_start'',
                           PError (DecoderError e)]),
                  s\<lparr>decoder := d1\<rparr>)
             | (Inr t, d1) \<Rightarrow> navigateObjectKey_loop (s\<lparr>decoder := d1\<rparr>) targetKey []))"

definition navigateToSegment :: "extractState \<Rightarrow> string \<Rightarrow> error option \<times> extractState" where
  "navigateToSegment s segment =
     (case strconv_Atoi segment of
        Some idx \<Rightarrow> navigateArrayIndex s idx
      | None \<Rightarrow> navigateObjectKey s segment)"

section \<open>The extractors (\<open>value_extractor.go\<close>)\<close>

text \<open>
  The loop of \<open>extractSingleValue\<close> over \<open>state.segments\<close>; \<open>i\<close> is the index of the
  segment at the head of the list.
\<close>

fun extractSingleValue_loop ::
  "extractState \<Rightarrow> nat \<Rightarrow> string list \<Rightarrow> error option \<times> extractState" where
  "extractSingleValue_loop s i [] = (None, s)"
| "extractSingleValue_loop s i (segment # rest) =
     (let s1 = s\<lparr>position := i\<rparr> in
      if segment = [] then
        (Some (enrichError s1
                 [sentinelPart ErrJSONPathTraversalFailed,
                  sentinelPart ErrJSONPathContainsEmptySegment]),
         s1)
      else
        (case navigateToSegment s1 segment of
           (Some e, s2) \<Rightarrow> (Some e, s2)
         | (None, s2) \<Rightarrow>
             extractSingleValue_loop
               (s2\<lparr>pathProgress := pathProgress s2 @ [segment]\<rparr>) (i + 1) rest))"

text \<open>
  \<open>tokenize\<close> is what the external decoder makes of the bytes of its reader (the
  tokens it delivers for them); it is a parameter of every function that creates a
  decoder. \<open>rdr\<close> is the content of the \<open>bytes.Reader\<close> passed in.
\<close>

definition extractSingleValue ::
  "(string \<Rightarrow> token list) \<Rightarrow> string \<Rightarrow> string \<Rightarrow> string \<Rightarrow> error + any" where
  "extractSingleValue tokenize rdr sel raw =
     (if length sel = 0 then
        Inl (NewErr [sentinelPart ErrJSONPathTraversalFailed,
                     sentinelPart ErrJSONValueSelectorCannotBeEmpty])
      else
        (let state = newExtractState (NewDecoder tokenize rdr) sel raw in
         case extractSingleValue_loop state 0 (segments state) of
           (Some e, s') \<Rightarrow> Inl e
         | (None, s') \<Rightarrow>
             (case UnmarshalDecode (decoder s') of
                (Inl e, d') \<Rightarrow>
                  Inl (enrichError (s'\<lparr>decoder := d'\<rparr>)
                         [sentinelPart ErrJSONStreamingParseFailed,
                          sentinelPart ErrJSONUnmarshalFailed,
                          PError (DecoderError e)])
              | (Inr v, d') \<Rightarrow> Inr v)))"

text \<open>
  An \<open>io.Reader\<close>: the bytes it yields and the error (its message), if any, that
  ends the reading. A \<open>nil\<close> reader is \<open>None\<close>.
\<close>

record reader =
  content :: string
  failure :: "string option"

definition bytes_NewReader :: "string \<Rightarrow> reader" where
  "bytes_NewReader b = \<lparr>content = b, failure = None\<rparr>"

definition readAllBytes :: "reader \<Rightarrow> string \<times> error option" where
  "readAllBytes r = (content r, map_option ReaderError (failure r))"

text \<open>
  The three results of the batch operations. A \<open>nil\<close> map is the empty map and a
  \<open>nil\<close> slice the empty list.
\<close>

record results =
  valuesMap :: "string \<rightharpoonup> any"
  notFound :: "string list"
  err :: "error option"

text \<open>The loop over the selectors: the values found and the errors collected so far.\<close>

fun ExtractValues_loop ::
  "(string \<Rightarrow> token list) \<Rightarrow> string \<Rightarrow> string list \<Rightarrow>
   (string \<rightharpoonup> any) \<times> error list \<Rightarrow> (string \<rightharpoonup> any) \<times> error list" where
  "ExtractValues_loop tokenize raw [] acc = acc"
| "ExtractValues_loop tokenize raw (sel # sels) (vm, errs) =
     (case extractSingleValue tokenize raw sel raw of
        Inl e \<Rightarrow> ExtractValues_loop tokenize raw sels (vm, errs @ [e])
      | Inr v \<Rightarrow> ExtractValues_loop tokenize raw sels (vm(sel \<mapsto> v), errs))"

definition ExtractValuesFromReader ::
  "(string \<Rightarrow> token list) \<Rightarrow> reader option \<Rightarrow> string list \<Rightarrow> results" where
  "ExtractValuesFromReader tokenize rdr sels =
     (case rdr of
        None \<Rightarrow>
          \<lparr>valuesMap = Map.empty, notFound = [],
           err = Some (NewErr [sentinelPart ErrJSONPathTraversalFailed,
                               sentinelPart ErrJSONBodyCannotBeEmpty,
                               PString ''selectors'', PSelectors sels])\<rparr>
      | Some r \<Rightarrow>
          if length sels = 0 then
            \<lparr>valuesMap = Map.empty, notFound = [],
             err = Some (NewErr [sentinelPart ErrJSONPathTraversalFailed,
                                 sentinelPart ErrJSONValueSelectorCannotBeEmpty])\<rparr>
          else
            (case readAllBytes r of
               (raw, Some e) \<Rightarrow>
                 \<lparr>valuesMap = Map.empty, notFound = [],
                  err = Some (NewErr [sentinelPart ErrJSONStreamingParseFailed,
                                      sentinelPart ErrJSONReadFailed,
                                      PError e])\<rparr>
             | (raw, None) \<Rightarrow>
                 (case ExtractValues_loop tokenize raw sels (Map.empty, []) of
                    (vm, errs) \<Rightarrow>
                      \<lparr>valuesMap = vm,
                       notFound = filter (\<lambda>s. vm s = None) sels,
                       err = (if length errs > 0 then CombineErrs errs else None)\<rparr>)))"

definition ExtractValuesFromBytes ::
  "(string \<Rightarrow> token list) \<Rightarrow> string \<Rightarrow> string list \<Rightarrow> results" where
  "ExtractValuesFromBytes tokenize jsonBytes sels =
     (if length jsonBytes = 0 then
        \<lparr>valuesMap = Map.empty, notFound = [],
         err = Some (NewErr [sentinelPart ErrJSONPathTraversalFailed,
                             sentinelPart ErrJSONBodyCannotBeEmpty,
                             PString ''selectors'', PSelectors sels])\<rparr>
      else ExtractValuesFromReader tokenize (Some (bytes_NewReader jsonBytes)) sels)"

definition ExtractValueFromReader ::
  "(string \<Rightarrow> token list) \<Rightarrow> reader option \<Rightarrow> string \<Rightarrow> error + any" where
  "ExtractValueFromReader tokenize rdr sel =
     (let res = ExtractValuesFromReader tokenize rdr [sel] in
      case err res of
        Some e \<Rightarrow>
          Inl (WithErr [sentinelPart ErrFailedToExtractValueFromJSON,
                        sentinelPart ErrExtractingFromJSONByReader,
                        PString ''selector'', PSelector sel,
                        PError e])
      | None \<Rightarrow>
          if length (notFound res) > 0 then
            Inl (NewErr [sentinelPart ErrJSONSelectorNotFound,
                         sentinelPart ErrExtractingFromJSONByReader,
                         PString ''selector'', PSelector sel])
          else
            (case valuesMap res sel of
               None \<Rightarrow>
                 Inl (NewErr [sentinelPart ErrJSONSelectorNotFound,
                              sentinelPart ErrExtractingFromJSONByReader,
                              PString ''selector'', PSelector sel])
             | Some v \<Rightarrow> Inr v))"

definition ExtractValueFromBytes ::
  "(string \<Rightarrow> token list) \<Rightarrow> string \<Rightarrow> string \<Rightarrow> error + any" where
  "ExtractValueFromBytes tokenize jsonBytes sel =
     (let res = ExtractValuesFromBytes tokenize jsonBytes [sel] in
      case err res of
        Some e \<Rightarrow>
          Inl (WithErr [sentinelPart ErrFailedToExtractValueFromJSON,
                        sentinelPart ErrExtractingFromJSONBytes,
                        PString ''selector'', PSelector sel,
                        PError e])
      | None \<Rightarrow>
          if length (notFound res) > 0 then
            Inl (NewErr [sentinelPart ErrJSONSelectorNotFound,
                         sentinelPart ErrExtractingFromJSONBytes,
                         PString ''selector'', PSelector sel])
          else
            (case valuesMap res sel of
               None \<Rightarrow>
                 Inl (NewErr [sentinelPart ErrJSONSelectorNotFound,
                              sentinelPart ErrExtractingFromJSONBytes,
                              PString ''selector'', PSelector sel])
             | Some v \<Rightarrow> Inr v))"

section \<open>Documents\<close>

text \<open>
  A JSON document as a tree, and the tokens the decoder delivers for a rendering of
  it. A byte sequence is a well-formed document when the decoder delivers the tokens
  of such a tree for it, with nothing after them.
\<close>

datatype json =
    JNull | JBool bool | JNumber string | JString string
  | JArray "json list" | JObject "(string \<times> json) list"

fun tokens_of :: "json \<Rightarrow> token list" where
  "tokens_of JNull = [TNull]"
| "tokens_of (JBool b) = [if b then TTrue else TFalse]"
| "tokens_of (JNumber n) = [TNumber n]"
| "tokens_of (JString s) = [TString s]"
| "tokens_of (JArray vs) = TArrStart # concat (map tokens_of vs) @ [TArrEnd]"
| "tokens_of (JObject ms) =
     TObjStart # concat (map (\<lambda>m. TString (fst m) # tokens_of (snd m)) ms) @ [TObjEnd]"

text \<open>The dynamic value structurally equal to a JSON value: every number the number variant.\<close>

fun dyn_of :: "json \<Rightarrow> any" where
  "dyn_of JNull = ANil"
| "dyn_of (JBool b) = ABool b"
| "dyn_of (JNumber n) = AFloat64 n"
| "dyn_of (JString s) = AString s"
| "dyn_of (JArray vs) = ASlice (map dyn_of vs)"
| "dyn_of (JObject ms) = AMap (map (\<lambda>m. (fst m, dyn_of (snd m))) ms)"

text \<open>
  The values \<open>UnmarshalDecode\<close> can build: every number in the value is a JSON number
  that converts to a finite \<open>float64\<close>.
\<close>

fun float64_values :: "json \<Rightarrow> bool" where
  "float64_values JNull = True"
| "float64_values (JBool b) = True"
| "float64_values (JNumber n) = ParseFloat_ok n"
| "float64_values (JString s) = True"
| "float64_values (JArray vs) = (\<forall>v \<in> set vs. float64_values v)"
| "float64_values (JObject ms) = (\<forall>m \<in> set ms. float64_values (snd m))"

section \<open>What the spec calls resolving a selector\<close>

text \<open>
  The spec's selector model, in its own words. A selector is split on \<open>.\<close>; it is
  rejected when it is empty or when a segment is. A segment matching
  \<open>^-?[0-9]+$\<close> is an index segment, a zero-based array index, and a negative literal
  is always out of range; any other segment is a key segment, matched by exact string
  equality. The classification of a segment is a parameter of the resolution, so that
  the same resolution can be read with the classification the code uses.
\<close>

datatype segment_class = KeySegment | IndexSegment nat | NegativeIndex

definition all_digits :: "string \<Rightarrow> bool" where
  "all_digits s = (s \<noteq> [] \<and> list_all is_digit s)"

definition digits_value :: "string \<Rightarrow> nat" where
  "digits_value s = foldl (\<lambda>n c. n * 10 + digit_value c) 0 s"

definition spec_classify :: "string \<Rightarrow> segment_class" where
  "spec_classify seg =
     (if all_digits seg then IndexSegment (digits_value seg)
      else if seg \<noteq> [] \<and> hd seg = CHR ''-'' \<and> all_digits (tl seg) then NegativeIndex
      else KeySegment)"

text \<open>The classification the code makes: an index segment is one \<open>strconv.Atoi\<close> accepts.\<close>

definition atoi_classify :: "string \<Rightarrow> segment_class" where
  "atoi_classify seg =
     (case strconv_Atoi seg of
        None \<Rightarrow> KeySegment
      | Some i \<Rightarrow> if i < 0 then NegativeIndex else IndexSegment (nat i))"

fun resolve_segments :: "(string \<Rightarrow> segment_class) \<Rightarrow> json \<Rightarrow> string list \<Rightarrow> json option" where
  "resolve_segments cls v [] = Some v"
| "resolve_segments cls v (seg # segs) =
     (case cls seg of
        IndexSegment i \<Rightarrow>
          (case v of
             JArray vs \<Rightarrow> if i < length vs then resolve_segments cls (vs ! i) segs else None
           | _ \<Rightarrow> None)
      | NegativeIndex \<Rightarrow> None
      | KeySegment \<Rightarrow>
          (case v of
             JObject ms \<Rightarrow>
               (case map_of ms seg of
                  Some v' \<Rightarrow> resolve_segments cls v' segs
                | None \<Rightarrow> None)
           | _ \<Rightarrow> None))"

definition resolves :: "(string \<Rightarrow> segment_class) \<Rightarrow> json \<Rightarrow> string \<Rightarrow> json \<Rightarrow> bool" where
  "resolves cls doc sel v =
     (sel \<noteq> [] \<and> [] \<notin> set (strings_Split sel CHR ''.'')
      \<and> resolve_segments cls doc (strings_Split sel CHR ''.'') = Some v)"

text \<open>
  The objects a resolution steps into by a key segment have no key that both begins
  and ends with a double quote (a key that \<open>removeQuotes\<close> would change).
\<close>

fun plain_keys_along :: "(string \<Rightarrow> segment_class) \<Rightarrow> json \<Rightarrow> string list \<Rightarrow> bool" where
  "plain_keys_along cls v [] = True"
| "plain_keys_along cls v (seg # segs) =
     (case cls seg of
        IndexSegment i \<Rightarrow>
          (case v of
             JArray vs \<Rightarrow> if i < length vs then plain_keys_along cls (vs ! i) segs else True
           | _ \<Rightarrow> True)
      | NegativeIndex \<Rightarrow> True
      | KeySegment \<Rightarrow>
          (case v of
             JObject ms \<Rightarrow>
               list_all (\<lambda>m. removeQuotes (fst m) = fst m) ms
               \<and> (case map_of ms seg of
                    Some v' \<Rightarrow> plain_keys_along cls v' segs
                  | None \<Rightarrow> True)
           | _ \<Rightarrow> True))"

section \<open>Vocabulary of the statements\<close>

text \<open>The kind \<open>PeekKind\<close> reports at the start of a JSON value.\<close>

fun json_Kind :: "json \<Rightarrow> kind" where
  "json_Kind JNull = KNull"
| "json_Kind (JBool b) = (if b then KTrue else KFalse)"
| "json_Kind (JNumber n) = KNumber"
| "json_Kind (JString s) = KString"
| "json_Kind (JArray vs) = KArrStart"
| "json_Kind (JObject ms) = KObjStart"

text \<open>The tokens of the elements of an array and of the members of an object.\<close>

definition elements_tokens :: "json list \<Rightarrow> token list" where
  "elements_tokens vs = concat (map tokens_of vs)"

definition members_tokens :: "(string \<times> json) list \<Rightarrow> token list" where
  "members_tokens ms = concat (map (\<lambda>m. TString (fst m) # tokens_of (snd m)) ms)"

text \<open>
  The calls the navigator makes on the decoder to skip \<open>n\<close> array elements, and to read
  and pass over \<open>n\<close> object members.
\<close>

definition skipped :: "nat \<Rightarrow> dec_call list" where
  "skipped n = concat (replicate n [CallPeekKind, CallSkipValue])"

definition visited :: "nat \<Rightarrow> dec_call list" where
  "visited n = concat (replicate n [CallPeekKind, CallReadToken, CallSkipValue])"

text \<open>
  A tokenizer of which one input is known: the decoder delivers the tokens \<open>ts\<close> for
  the bytes \<open>raw\<close> (and rejects everything else).
\<close>

definition tokenizer_for :: "string \<Rightarrow> token list \<Rightarrow> string \<Rightarrow> token list" where
  "tokenizer_for raw ts bytes = (if bytes = raw then ts else [TBad KInvalid])"

text \<open>An error result reports a category; an optional error reports a category.\<close>

definition fails_with :: "error + any \<Rightarrow> sentinel \<Rightarrow> bool" where
  "fails_with r t = (case r of Inl e \<Rightarrow> errors_Is e t | Inr v \<Rightarrow> False)"

definition reports :: "error option \<Rightarrow> sentinel \<Rightarrow> bool" where
  "reports e t = (case e of Some e' \<Rightarrow> errors_Is e' t | None \<Rightarrow> False)"

text \<open>Auxiliary notions of the proofs.\<close>

definition first_kind :: "token list \<Rightarrow> kind" where
  "first_kind ts = (case ts of [] \<Rightarrow> KInvalid | t # ts' \<Rightarrow> token_Kind t)"

definition after_put :: "bool \<Rightarrow> step \<Rightarrow> token list \<Rightarrow> dec_error + (any \<times> token list)" where
  "after_put floats r rest =
     (case r of
        Done a \<Rightarrow> Inr (a, rest)
      | Next st' \<Rightarrow> read_value floats st' rest
      | Reject \<Rightarrow> Inl SyntaxError
      | OutOfRange \<Rightarrow> Inl RangeError)"

text \<open>The categories a traversal of one selector can report.\<close>

definition traversal_sentinels :: "sentinel set" where
  "traversal_sentinels =
     {ErrJSONPathTraversalFailed, ErrJSONIndexOutOfRange, ErrJSONTokenReadFailed,
      ErrJSONPathSegmentNotFound, ErrJSONPathExpectedArrayAtSegment,
      ErrJSONPathExpectedObjectAtSegment, ErrJSONPathContainsEmptySegment,
      ErrJSONStreamingParseFailed, ErrJSONUnmarshalFailed, ErrJSONValueSelectorCannotBeEmpty}"

text \<open>
  The partition law of a batch result: no selector is both a key of the values map and
  in the not-found list, every input selector is one or the other (and nothing else
  is), and the not-found list is the input list without the selectors that resolved, in
  the input order.
\<close>

definition partitions :: "results \<Rightarrow> string list \<Rightarrow> bool" where
  "partitions res sels =
     (set (notFound res) \<inter> dom (valuesMap res) = {}
      \<and> set (notFound res) \<union> dom (valuesMap res) = set sels
      \<and> notFound res = filter (\<lambda>s. s \<notin> dom (valuesMap res)) sels)"

text \<open>
  The errors of the selectors of a list, in the order of the list, one for each
  occurrence of a selector that fails; \<open>f\<close> is the extraction of one selector.
\<close>

definition collected_errors :: "(string \<Rightarrow> error + any) \<Rightarrow> string list \<Rightarrow> error list" where
  "collected_errors f sels = concat (map (\<lambda>s. case f s of Inl e \<Rightarrow> [e] | Inr v \<Rightarrow> []) sels)"

text \<open>
  What the batch returns beside its values: an error iff a selector failed, the
  aggregate of the errors collected, in which the error of each failing selector is
  found; with it, the value of every selector that resolved and every failing selector
  in the not-found list.
\<close>

definition aggregates :: "results \<Rightarrow> (string \<Rightarrow> error + any) \<Rightarrow> string list \<Rightarrow> bool" where
  "aggregates res f sels =
     ((err res \<noteq> None) = (\<exists>s\<in>set sels. isl (f s))
      \<and> err res = CombineErrs (collected_errors f sels)
      \<and> (\<forall>s\<in>set sels.
            case f s of
              Inl e \<Rightarrow> (\<exists>es. err res = Some (Joined es) \<and> e \<in> set es)
                       \<and> valuesMap res s = None \<and> s \<in> set (notFound res)
            | Inr v \<Rightarrow> valuesMap res s = Some v \<and> s \<notin> set (notFound res)))"

text \<open>
  A selector that occurs several times in the input: one entry in the values map and
  none in the not-found list when it resolves; when it fails, one entry of the not-found
  list for each occurrence, and the aggregated error joins exactly one error for each
  entry of the not-found list, in order.
\<close>

definition per_occurrence ::
  "results \<Rightarrow> (string \<Rightarrow> error + any) \<Rightarrow> string list \<Rightarrow> string \<Rightarrow> bool" where
  "per_occurrence res f sels s =
     (case f s of
        Inr v \<Rightarrow> valuesMap res s = Some v \<and> count_list (notFound res) s = 0
      | Inl e \<Rightarrow> valuesMap res s = None
                 \<and> count_list (notFound res) s = count_list sels s
                 \<and> (\<exists>es. err res = Some (Joined es) \<and> map Inl es = map f (notFound res)))"

text \<open>
  What the single-value operations make of the result of the one selector: a value is
  passed on, an error is joined and wrapped with \<open>ErrFailedToExtractValueFromJSON\<close>
  and the sentinel of the variant.
\<close>

definition wraps_failure :: "sentinel \<Rightarrow> string \<Rightarrow> error + any \<Rightarrow> error + any" where
  "wraps_failure via sel r =
     (case r of
        Inl e \<Rightarrow> Inl (WithErr [sentinelPart ErrFailedToExtractValueFromJSON,
                               sentinelPart via,
                               PString ''selector'', PSelector sel,
                               PError (Joined [e])])
      | Inr v \<Rightarrow> Inr v)"

text \<open>Two sessions that differ in the decoder at most.\<close>

definition same_session :: "extractState \<Rightarrow> extractState \<Rightarrow> bool" where
  "same_session s s' =
     (selector s' = selector s \<and> segments s' = segments s \<and> pathProgress s' = pathProgress s
      \<and> position s' = position s \<and> rawBytes s' = rawBytes s)"

text \<open>
  The result of \<open>extractSingleValue\<close> for a selector whose first empty segment follows
  the segments \<open>pre\<close>, from the result of the loop over \<open>pre\<close>: the error of the
  segment of \<open>pre\<close> that failed to navigate, or else the empty-segment error raised at
  position \<open>length pre\<close>.
\<close>

definition empty_segment_outcome :: "string list \<Rightarrow> error option \<times> extractState \<Rightarrow> error + any" where
  "empty_segment_outcome pre r =
     (case r of
        (Some e, s') \<Rightarrow> Inl e
      | (None, s') \<Rightarrow>
          Inl (enrichError (s'\<lparr>position := length pre\<rparr>)
                 [sentinelPart ErrJSONPathTraversalFailed,
                  sentinelPart ErrJSONPathContainsEmptySegment]))"

text \<open>
  Two sessions for the examples: one on the array \<open>[10,20,30]\<close>, one on the object
  \<open>{"a":0,"\"x\"":1}\<close>, whose second key is the three characters \<open>"x"\<close> (written
  with escapes in the JSON text, delivered unescaped by the decoder).
\<close>

definition array_session :: extractState where
  \<open>array_session =
     newExtractState
       (NewDecoder
          (tokenizer_for ''[10,20,30]'' [TArrStart, TNumber ''10'', TNumber ''20'', TNumber ''30'', TArrEnd])
          ''[10,20,30]'')
       ''1'' ''[10,20,30]''\<close>

definition quoted_document :: string where
  \<open>quoted_document = ''{"a":0,"'' @ [CHR 0x5C, CHR 0x22] @ ''x'' @ [CHR 0x5C, CHR 0x22] @ ''":1}''\<close>

definition quoted_tokens :: "token list" where
  \<open>quoted_tokens = [TObjStart, TString ''a'', TNumber ''0'', TString ''"x"'', TNumber ''1'', TObjEnd]\<close>

definition quoted_session :: extractState where
  "quoted_session =
     newExtractState (NewDecoder (tokenizer_for quoted_document quoted_tokens) quoted_document)
       ''x'' quoted_document"

section \<open>The decoder on the tokens of a document\<close>

declare navigateArrayIndex_loop.simps [simp del]
declare navigateObjectKey_loop.simps [simp del]

lemma condensedJSON_decoder [simp]: "condensedJSON (s\<lparr>decoder := d\<rparr>) = condensedJSON s"
  by (simp add: condensedJSON_def)

lemma enrichError_decoder [simp]: "enrichError (s\<lparr>decoder := d\<rparr>) parts = enrichError s parts"
  by (simp add: enrichError_def)

lemma decoder_update_all [simp]:
  "(d :: decoder)\<lparr>toks := ts, calls := cs\<rparr> = \<lparr>toks = ts, calls = cs\<rparr>"
  by (cases d) simp

lemma elements_tokens_simps [simp]:
  "elements_tokens [] = []"
  "elements_tokens (v # vs) = tokens_of v @ elements_tokens vs"
  by (simp_all add: elements_tokens_def)

lemma members_tokens_simps [simp]:
  "members_tokens [] = []"
  "members_tokens ((k, v) # ms) = TString k # tokens_of v @ members_tokens ms"
  by (simp_all add: members_tokens_def)

lemma members_tokens_append [simp]:
  "members_tokens (ms @ ms') = members_tokens ms @ members_tokens ms'"
  by (simp add: members_tokens_def)

lemma tokens_of_JArray: "tokens_of (JArray vs) = TArrStart # elements_tokens vs @ [TArrEnd]"
  by (simp add: elements_tokens_def)

lemma tokens_of_JObject: "tokens_of (JObject ms) = TObjStart # members_tokens ms @ [TObjEnd]"
  by (simp add: members_tokens_def)

lemma awaits_name_simps [simp]:
  "awaits_name [] = False"
  "awaits_name (InArray vs # st) = False"
  "awaits_name (InObject ms None # st) = True"
  "awaits_name (InObject ms (Some k) # st) = False"
  by (simp_all add: awaits_name_def)

lemma read_value_tokens_of:
  "\<not> awaits_name st \<Longrightarrow> (floats \<Longrightarrow> float64_values v) \<Longrightarrow>
   read_value floats st (tokens_of v @ rest) = after_put floats (put (dyn_of v) st) rest"
proof (induction v arbitrary: st rest)
  case (JArray vs)
  have elems: "read_value floats (InArray acc # st) (elements_tokens ws @ TArrEnd # rest)
      = read_value floats (InArray (rev (map dyn_of ws) @ acc) # st) (TArrEnd # rest)"
    if "set ws \<subseteq> set vs" for ws acc
    using that
  proof (induction ws arbitrary: acc)
    case Nil
    then show ?case by simp
  next
    case (Cons w ws)
    then have w: "w \<in> set vs" by simp
    with JArray.prems(2) have "floats \<Longrightarrow> float64_values w" by simp
    from JArray.IH [OF w _ this, of "InArray acc # st"] Cons show ?case
      by (simp add: after_put_def)
  qed
  show ?case
    using JArray.prems(1) elems [of vs "[]"]
    by (simp add: tokens_of_JArray feed_def after_put_def del: tokens_of.simps)
next
  case (JObject ms)
  have membs: "read_value floats (InObject acc None # st) (members_tokens ws @ TObjEnd # rest)
      = read_value floats (InObject (rev (map (\<lambda>m. (fst m, dyn_of (snd m))) ws) @ acc) None # st)
          (TObjEnd # rest)"
    if "set ws \<subseteq> set ms" for ws acc
    using that
  proof (induction ws arbitrary: acc)
    case Nil
    then show ?case by simp
  next
    case (Cons w ws)
    obtain k x where w: "w = (k, x)" by (cases w)
    with Cons have kx: "(k, x) \<in> set ms" by simp
    with JObject.prems(2) have fx: "floats \<Longrightarrow> float64_values x" by force
    have "read_value floats st' (tokens_of x @ r) = after_put floats (put (dyn_of x) st') r"
      if "\<not> awaits_name st'" for st' r
      using JObject.IH [of "(k, x)" x st' r] kx that fx by simp
    from this [of "InObject acc (Some k) # st"] Cons w show ?case
      by (simp add: after_put_def feed_def)
  qed
  show ?case
    using JObject.prems(1) membs [of ms "[]"]
    by (simp add: tokens_of_JObject feed_def after_put_def del: tokens_of.simps)
qed (auto simp add: feed_def after_put_def)

lemma read_value_top:
  "(floats \<Longrightarrow> float64_values v) \<Longrightarrow> read_value floats [] (tokens_of v @ rest) = Inr (dyn_of v, rest)"
  using read_value_tokens_of [of "[]" floats v rest] by (simp add: after_put_def)

lemma first_kind_simps [simp]:
  "first_kind [] = KInvalid"
  "first_kind (t # ts) = token_Kind t"
  "first_kind (tokens_of v @ rest) = json_Kind v"
  by (cases v; simp add: first_kind_def)+

lemma PeekKind_eq: "PeekKind d = (first_kind (toks d), logged CallPeekKind d)"
  by (simp add: PeekKind_def first_kind_def)

lemma SkipValue_eq:
  "toks d = tokens_of v @ rest \<Longrightarrow> SkipValue d = (None, logged CallSkipValue (d\<lparr>toks := rest\<rparr>))"
  by (simp add: SkipValue_def read_value_top)

lemma PeekKind_tokens_of:
  "toks d = tokens_of v @ rest \<Longrightarrow> PeekKind d = (json_Kind v, logged CallPeekKind d)"
  by (cases v) (simp_all add: PeekKind_def)

lemma json_Kind_not_end [simp]: "json_Kind v \<noteq> KArrEnd" "json_Kind v \<noteq> KObjEnd"
  by (cases v; simp)+

lemma SkipValue_tokens_of:
  "toks d = tokens_of v @ rest \<Longrightarrow> SkipValue d = (None, logged CallSkipValue (d\<lparr>toks := rest\<rparr>))"
  by (simp add: SkipValue_def read_value_top)

lemma UnmarshalDecode_tokens_of:
  "toks d = tokens_of v @ rest \<Longrightarrow> float64_values v \<Longrightarrow>
   UnmarshalDecode d = (Inr (dyn_of v), logged CallUnmarshalDecode (d\<lparr>toks := rest\<rparr>))"
  by (simp add: UnmarshalDecode_def read_value_top)

lemma PeekKind_end:
  "toks d = TArrEnd # rest \<Longrightarrow> PeekKind d = (KArrEnd, logged CallPeekKind d)"
  "toks d = TObjEnd # rest \<Longrightarrow> PeekKind d = (KObjEnd, logged CallPeekKind d)"
  by (simp_all add: PeekKind_def)

lemma skipped_simps [simp]: "skipped 0 = []" "skipped (Suc n) = CallPeekKind # CallSkipValue # skipped n"
  by (simp_all add: skipped_def)

lemma array_loop_in_range:
  "toks (decoder s) = elements_tokens vs @ TArrEnd # rest \<Longrightarrow> n \<le> length vs \<Longrightarrow>
   navigateArrayIndex_loop s (c + int n) c =
     (None,
      s\<lparr>decoder := \<lparr>toks = elements_tokens (drop n vs) @ TArrEnd # rest,
                     calls = calls (decoder s) @ skipped n\<rparr>\<rparr>,
      c + int n)"
proof (induction n arbitrary: s c vs)
  case 0
  then show ?case
    by (subst navigateArrayIndex_loop.simps) simp
next
  case (Suc n)
  then obtain v vs' where vs: "vs = v # vs'"
    by (cases vs) auto
  let ?d1 = "logged CallPeekKind (decoder s)"
  let ?d2 = "logged CallSkipValue (?d1\<lparr>toks := elements_tokens vs' @ TArrEnd # rest\<rparr>)"
  have peek: "PeekKind (decoder s) = (json_Kind v, ?d1)"
    using Suc.prems vs by (intro PeekKind_tokens_of [where rest = "elements_tokens vs' @ TArrEnd # rest"]) simp
  have skip: "SkipValue ?d1 = (None, ?d2)"
    using Suc.prems vs
    by (intro SkipValue_tokens_of [where v = v]) (simp add: logged_def)
  have step: "navigateArrayIndex_loop s (c + int (Suc n)) c
      = navigateArrayIndex_loop (s\<lparr>decoder := ?d2\<rparr>) (c + 1 + int n) (c + 1)"
    by (subst navigateArrayIndex_loop.simps) (simp add: peek skip add.assoc)
  have "navigateArrayIndex_loop (s\<lparr>decoder := ?d2\<rparr>) (c + 1 + int n) (c + 1) =
     (None,
      s\<lparr>decoder := ?d2\<rparr>\<lparr>decoder := \<lparr>toks = elements_tokens (drop n vs') @ TArrEnd # rest,
                     calls = calls (decoder (s\<lparr>decoder := ?d2\<rparr>)) @ skipped n\<rparr>\<rparr>,
      c + 1 + int n)"
    using Suc.prems vs by (intro Suc.IH) (simp_all add: logged_def)
  with step vs show ?case
    by (simp add: logged_def add.assoc)
qed

lemma array_loop_out_of_range:
  "toks (decoder s) = elements_tokens vs @ TArrEnd # rest \<Longrightarrow> length vs < n \<Longrightarrow>
   navigateArrayIndex_loop s (c + int n) c =
     (Some (enrichError s
              [sentinelPart ErrJSONPathTraversalFailed,
               sentinelPart ErrJSONIndexOutOfRange,
               PString ''target_index'', PInt (c + int n),
               PString ''array_length'', PInt (c + int (length vs))]),
      s\<lparr>decoder := \<lparr>toks = TArrEnd # rest,
                     calls = calls (decoder s) @ skipped (length vs) @ [CallPeekKind]\<rparr>\<rparr>,
      c + int (length vs))"
proof (induction vs arbitrary: s c n)
  case Nil
  then have peek: "PeekKind (decoder s) = (KArrEnd, logged CallPeekKind (decoder s))"
    by (intro PeekKind_end) simp
  from Nil show ?case
    by (subst navigateArrayIndex_loop.simps) (simp add: peek logged_def)
next
  case (Cons v vs')
  then obtain m where n: "n = Suc m" and m: "length vs' < m"
    by (cases n) auto
  let ?d1 = "logged CallPeekKind (decoder s)"
  let ?d2 = "logged CallSkipValue (?d1\<lparr>toks := elements_tokens vs' @ TArrEnd # rest\<rparr>)"
  have peek: "PeekKind (decoder s) = (json_Kind v, ?d1)"
    using Cons.prems by (intro PeekKind_tokens_of [where rest = "elements_tokens vs' @ TArrEnd # rest"]) simp
  have skip: "SkipValue ?d1 = (None, ?d2)"
    using Cons.prems
    by (intro SkipValue_tokens_of [where v = v]) (simp add: logged_def)
  have step: "navigateArrayIndex_loop s (c + int n) c
      = navigateArrayIndex_loop (s\<lparr>decoder := ?d2\<rparr>) (c + 1 + int m) (c + 1)"
    by (subst navigateArrayIndex_loop.simps) (simp add: peek skip n add.assoc)
  have "toks (decoder (s\<lparr>decoder := ?d2\<rparr>)) = elements_tokens vs' @ TArrEnd # rest"
    by (simp add: logged_def)
  from Cons.IH [OF this m, of "c + 1"] step n show ?case
    by (simp add: logged_def add.assoc)
qed

lemma ReadToken_start:
  "toks d = TArrStart # ts \<Longrightarrow> ReadToken d = (Inr TArrStart, logged CallReadToken (d\<lparr>toks := ts\<rparr>))"
  "toks d = TObjStart # ts \<Longrightarrow> ReadToken d = (Inr TObjStart, logged CallReadToken (d\<lparr>toks := ts\<rparr>))"
  "toks d = TString k # ts \<Longrightarrow> ReadToken d = (Inr (TString k), logged CallReadToken (d\<lparr>toks := ts\<rparr>))"
  by (simp_all add: ReadToken_def)

lemma navigateArrayIndex_negative:
  "i < 0 \<Longrightarrow>
   navigateArrayIndex s i =
     (Some (enrichError s
              [sentinelPart ErrJSONPathTraversalFailed,
               sentinelPart ErrJSONIndexOutOfRange,
               PString ''target_index'', PInt i]),
      s\<lparr>decoder := logged CallPeekKind (decoder s)\<rparr>)"
  by (simp add: navigateArrayIndex_def PeekKind_def)

lemma navigateArrayIndex_not_array:
  "toks (decoder s) = tokens_of v @ rest \<Longrightarrow> json_Kind v \<noteq> KArrStart \<Longrightarrow> 0 \<le> i \<Longrightarrow>
   navigateArrayIndex s i =
     (Some (enrichError s
              [sentinelPart ErrJSONPathTraversalFailed,
               sentinelPart ErrJSONPathExpectedArrayAtSegment,
               PString ''expected_type'', PString ''array'',
               PString ''actual_type'', PKind (json_Kind v)]),
      s\<lparr>decoder := logged CallPeekKind (decoder s)\<rparr>)"
  by (simp add: navigateArrayIndex_def PeekKind_tokens_of)

lemma navigateArrayIndex_in_range:
  assumes "toks (decoder s) = tokens_of (JArray vs) @ rest" and "n < length vs"
  shows "navigateArrayIndex s (int n) =
     (None,
      s\<lparr>decoder := \<lparr>toks = tokens_of (vs ! n) @ elements_tokens (drop (Suc n) vs) @ TArrEnd # rest,
                     calls = calls (decoder s) @ [CallPeekKind, CallReadToken] @ skipped n
                             @ [CallPeekKind]\<rparr>\<rparr>)"
proof -
  let ?d0 = "logged CallPeekKind (decoder s)"
  let ?d1 = "logged CallReadToken (?d0\<lparr>toks := elements_tokens vs @ TArrEnd # rest\<rparr>)"
  let ?s2 = "s\<lparr>decoder := \<lparr>toks = elements_tokens (drop n vs) @ TArrEnd # rest,
                     calls = calls ?d1 @ skipped n\<rparr>\<rparr>"
  have peek: "PeekKind (decoder s) = (KArrStart, ?d0)"
    using PeekKind_tokens_of [OF assms(1)] by simp
  have read: "ReadToken ?d0 = (Inr TArrStart, ?d1)"
    using assms(1) by (intro ReadToken_start) (simp add: logged_def tokens_of_JArray del: tokens_of.simps)
  have "navigateArrayIndex_loop (s\<lparr>decoder := ?d1\<rparr>) (0 + int n) 0 =
     (None,
      s\<lparr>decoder := ?d1\<rparr>\<lparr>decoder := \<lparr>toks = elements_tokens (drop n vs) @ TArrEnd # rest,
                     calls = calls (decoder (s\<lparr>decoder := ?d1\<rparr>)) @ skipped n\<rparr>\<rparr>,
      0 + int n)"
    using assms(2) by (intro array_loop_in_range) (simp_all add: logged_def)
  then have loop: "navigateArrayIndex_loop (s\<lparr>decoder := ?d1\<rparr>) (int n) 0 = (None, ?s2, int n)"
    by simp
  have dr: "drop n vs = vs ! n # drop (Suc n) vs"
    using assms(2) by (simp add: Cons_nth_drop_Suc)
  have peek2: "PeekKind (decoder ?s2) = (json_Kind (vs ! n), logged CallPeekKind (decoder ?s2))"
    by (intro PeekKind_tokens_of [where rest = "elements_tokens (drop (Suc n) vs) @ TArrEnd # rest"])
      (simp add: dr)
  show ?thesis
    by (simp add: navigateArrayIndex_def peek read loop dr) (simp add: logged_def PeekKind_eq)
qed

lemma navigateArrayIndex_out_of_range:
  assumes "toks (decoder s) = tokens_of (JArray vs) @ rest" and "length vs \<le> n"
  shows "navigateArrayIndex s (int n) =
     (Some (enrichError s
              [sentinelPart ErrJSONPathTraversalFailed,
               sentinelPart ErrJSONIndexOutOfRange,
               PString ''target_index'', PInt (int n),
               PString ''array_length'', PInt (int (length vs))]),
      s\<lparr>decoder := \<lparr>toks = TArrEnd # rest,
                     calls = calls (decoder s) @ [CallPeekKind, CallReadToken]
                             @ skipped (length vs) @ [CallPeekKind]\<rparr>\<rparr>)"
proof -
  let ?d0 = "logged CallPeekKind (decoder s)"
  let ?d1 = "logged CallReadToken (?d0\<lparr>toks := elements_tokens vs @ TArrEnd # rest\<rparr>)"
  have peek: "PeekKind (decoder s) = (KArrStart, ?d0)"
    using PeekKind_tokens_of [OF assms(1)] by simp
  have read: "ReadToken ?d0 = (Inr TArrStart, ?d1)"
    using assms(1) by (intro ReadToken_start) (simp add: logged_def tokens_of_JArray del: tokens_of.simps)
  have toks1: "toks (decoder (s\<lparr>decoder := ?d1\<rparr>)) = elements_tokens vs @ TArrEnd # rest"
    by (simp add: logged_def)
  show ?thesis
  proof (cases "n = length vs")
    case True
    let ?m = "length vs"
    let ?s2 = "s\<lparr>decoder := \<lparr>toks = TArrEnd # rest, calls = calls ?d1 @ skipped ?m\<rparr>\<rparr>"
    have "navigateArrayIndex_loop (s\<lparr>decoder := ?d1\<rparr>) (0 + int ?m) 0 =
       (None,
        s\<lparr>decoder := ?d1\<rparr>\<lparr>decoder := \<lparr>toks = elements_tokens (drop ?m vs) @ TArrEnd # rest,
                       calls = calls (decoder (s\<lparr>decoder := ?d1\<rparr>)) @ skipped ?m\<rparr>\<rparr>,
        0 + int ?m)"
      using toks1 by (intro array_loop_in_range) simp_all
    then have loop: "navigateArrayIndex_loop (s\<lparr>decoder := ?d1\<rparr>) (int ?m) 0 = (None, ?s2, int ?m)"
      by simp
    have peek2: "PeekKind (decoder ?s2) = (KArrEnd, logged CallPeekKind (decoder ?s2))"
      by (intro PeekKind_end) simp
    have "navigateArrayIndex s (int ?m) =
     (Some (enrichError s
              [sentinelPart ErrJSONPathTraversalFailed,
               sentinelPart ErrJSONIndexOutOfRange,
               PString ''target_index'', PInt (int ?m),
               PString ''array_length'', PInt (int (length vs))]),
      s\<lparr>decoder := \<lparr>toks = TArrEnd # rest,
                     calls = calls (decoder s) @ [CallPeekKind, CallReadToken]
                             @ skipped (length vs) @ [CallPeekKind]\<rparr>\<rparr>)"
      by (simp add: navigateArrayIndex_def peek read loop) (simp add: logged_def PeekKind_eq)
    with True show ?thesis
      by simp
  next
    case False
    with assms(2) have lt: "length vs < n" by simp
    from array_loop_out_of_range [OF toks1 lt, of 0]
    show ?thesis
      by (simp add: navigateArrayIndex_def peek read) (simp add: logged_def)
  qed
qed

lemma visited_simps [simp]:
  "visited 0 = []"
  "visited (Suc n) = CallPeekKind # CallReadToken # CallSkipValue # visited n"
  by (simp_all add: visited_def)

lemma object_loop_step:
  assumes "toks (decoder s) = TString k # tokens_of v @ ts" and "removeQuotes k \<noteq> target"
  shows "navigateObjectKey_loop s target avail =
     navigateObjectKey_loop
       (s\<lparr>decoder := \<lparr>toks = ts,
                       calls = calls (decoder s) @ [CallPeekKind, CallReadToken, CallSkipValue]\<rparr>\<rparr>)
       target (avail @ [removeQuotes k])"
proof -
  let ?d1 = "logged CallPeekKind (decoder s)"
  let ?d2 = "logged CallReadToken (?d1\<lparr>toks := tokens_of v @ ts\<rparr>)"
  have read: "ReadToken ?d1 = (Inr (TString k), ?d2)"
    using assms(1) by (intro ReadToken_start) (simp add: logged_def)
  have skip: "SkipValue ?d2 = (None, logged CallSkipValue (?d2\<lparr>toks := ts\<rparr>))"
    by (intro SkipValue_eq) (simp add: logged_def)
  show ?thesis
    using assms
    by (subst navigateObjectKey_loop.simps) (simp add: PeekKind_eq read skip, simp add: logged_def)
qed

lemma object_loop_found:
  "toks (decoder s) = members_tokens (pre @ (k, v) # post) @ TObjEnd # rest \<Longrightarrow>
   \<forall>m\<in>set pre. removeQuotes (fst m) \<noteq> target \<Longrightarrow> removeQuotes k = target \<Longrightarrow>
   navigateObjectKey_loop s target avail =
     (None,
      s\<lparr>decoder := \<lparr>toks = tokens_of v @ members_tokens post @ TObjEnd # rest,
                     calls = calls (decoder s) @ visited (length pre)
                             @ [CallPeekKind, CallReadToken]\<rparr>\<rparr>)"
proof (induction pre arbitrary: s avail)
  case Nil
  let ?d1 = "logged CallPeekKind (decoder s)"
  have read: "ReadToken ?d1 =
      (Inr (TString k), logged CallReadToken (?d1\<lparr>toks := tokens_of v @ members_tokens post @ TObjEnd # rest\<rparr>))"
    using Nil.prems(1) by (intro ReadToken_start) (simp add: logged_def)
  from Nil show ?case
    by (subst navigateObjectKey_loop.simps) (simp add: PeekKind_eq read, simp add: logged_def)
next
  case (Cons m pre)
  obtain k' v' where m: "m = (k', v')" by (cases m)
  let ?s' = "s\<lparr>decoder := \<lparr>toks = members_tokens (pre @ (k, v) # post) @ TObjEnd # rest,
                       calls = calls (decoder s) @ [CallPeekKind, CallReadToken, CallSkipValue]\<rparr>\<rparr>"
  have "navigateObjectKey_loop s target avail
      = navigateObjectKey_loop ?s' target (avail @ [removeQuotes k'])"
    using Cons.prems m by (intro object_loop_step [where v = v']) simp_all
  also have "\<dots> = (None,
      ?s'\<lparr>decoder := \<lparr>toks = tokens_of v @ members_tokens post @ TObjEnd # rest,
                     calls = calls (decoder ?s') @ visited (length pre)
                             @ [CallPeekKind, CallReadToken]\<rparr>\<rparr>)"
    using Cons.prems by (intro Cons.IH) simp_all
  finally show ?case
    by simp
qed


lemma navigateObjectKey_not_object:
  "toks (decoder s) = tokens_of v @ rest \<Longrightarrow> json_Kind v \<noteq> KObjStart \<Longrightarrow>
   navigateObjectKey s target =
     (Some (enrichError s
              [sentinelPart ErrJSONPathTraversalFailed,
               sentinelPart ErrJSONPathExpectedObjectAtSegment,
               PString ''expected_type'', PString ''object'',
               PString ''actual_type'', PKind (json_Kind v)]),
      s\<lparr>decoder := logged CallPeekKind (decoder s)\<rparr>)"
  by (simp add: navigateObjectKey_def PeekKind_eq)

lemma navigateObjectKey_enter:
  "toks (decoder s) = tokens_of (JObject ms) @ rest \<Longrightarrow>
   navigateObjectKey s target =
     navigateObjectKey_loop
       (s\<lparr>decoder := \<lparr>toks = members_tokens ms @ TObjEnd # rest,
                       calls = calls (decoder s) @ [CallPeekKind, CallReadToken]\<rparr>\<rparr>)
       target []"
  by (simp add: navigateObjectKey_def PeekKind_eq ReadToken_def tokens_of_JObject logged_def
      del: tokens_of.simps)

lemma navigateObjectKey_found:
  assumes "toks (decoder s) = tokens_of (JObject (pre @ (k, v) # post)) @ rest"
    and "\<forall>m\<in>set pre. removeQuotes (fst m) \<noteq> target" and "removeQuotes k = target"
  shows "navigateObjectKey s target =
     (None,
      s\<lparr>decoder := \<lparr>toks = tokens_of v @ members_tokens post @ TObjEnd # rest,
                     calls = calls (decoder s) @ [CallPeekKind, CallReadToken]
                             @ visited (length pre) @ [CallPeekKind, CallReadToken]\<rparr>\<rparr>)"
  unfolding navigateObjectKey_enter [OF assms(1)]
  using assms(2,3) by (subst object_loop_found [where pre = pre and k = k and v = v and post = post and rest = rest]) simp_all


section \<open>Resolution along a path\<close>

lemma map_of_first:
  "map_of ms k = Some v \<Longrightarrow> \<exists>pre post. ms = pre @ (k, v) # post \<and> (\<forall>m\<in>set pre. fst m \<noteq> k)"
proof (induction ms)
  case Nil
  then show ?case by simp
next
  case (Cons m ms)
  show ?case
  proof (cases "fst m = k")
    case True
    with Cons.prems have "m = (k, v)" by (cases m) simp
    then have "m # ms = [] @ (k, v) # ms \<and> (\<forall>m\<in>set []. fst m \<noteq> k)" by simp
    then show ?thesis by blast
  next
    case False
    with Cons.prems have "map_of ms k = Some v" by (cases m) simp
    from Cons.IH [OF this] obtain pre post where "ms = pre @ (k, v) # post" "\<forall>m\<in>set pre. fst m \<noteq> k"
      by blast
    with False have "m # ms = (m # pre) @ (k, v) # post \<and> (\<forall>m\<in>set (m # pre). fst m \<noteq> k)"
      by simp
    then show ?thesis by blast
  qed
qed

lemma atoi_classify_Index:
  "atoi_classify seg = IndexSegment n \<Longrightarrow> strconv_Atoi seg = Some (int n)"
  by (auto simp: atoi_classify_def split: option.splits if_splits)

lemma atoi_classify_Key:
  "atoi_classify seg = KeySegment \<Longrightarrow> strconv_Atoi seg = None"
  by (auto simp: atoi_classify_def split: option.splits if_splits)

lemma extract_loop_resolves:
  "resolve_segments atoi_classify v segs = Some v' \<Longrightarrow>
   plain_keys_along atoi_classify v segs \<Longrightarrow> [] \<notin> set segs \<Longrightarrow>
   toks (decoder s) = tokens_of v @ rest \<Longrightarrow>
   \<exists>s' rest'. extractSingleValue_loop s i segs = (None, s')
     \<and> toks (decoder s') = tokens_of v' @ rest'"
proof (induction segs arbitrary: v s i rest)
  case Nil
  then show ?case by auto
next
  case (Cons seg segs)
  let ?s1 = "s\<lparr>position := i\<rparr>"
  have toks1: "toks (decoder ?s1) = tokens_of v @ rest"
    using Cons.prems(4) by simp
  have seg: "seg \<noteq> []" and segs: "[] \<notin> set segs"
    using Cons.prems(3) by auto
  show ?case
  proof (cases "atoi_classify seg")
    case KeySegment
    with Cons.prems(1) obtain ms v1 where v: "v = JObject ms" and look: "map_of ms seg = Some v1"
      and res: "resolve_segments atoi_classify v1 segs = Some v'"
      by (auto split: json.splits option.splits)
    from Cons.prems(2) KeySegment v look
    have plain: "list_all (\<lambda>m. removeQuotes (fst m) = fst m) ms"
      and plain1: "plain_keys_along atoi_classify v1 segs"
      by simp_all
    from map_of_first [OF look] obtain pre post where
      ms: "ms = pre @ (seg, v1) # post" and pre: "\<forall>m\<in>set pre. fst m \<noteq> seg"
      by blast
    have pre': "\<forall>m\<in>set pre. removeQuotes (fst m) \<noteq> seg"
      using plain pre ms by (auto simp: list_all_iff)
    have this': "removeQuotes seg = seg"
      using plain ms by (auto simp: list_all_iff)
    have nav: "navigateToSegment ?s1 seg =
       (None, ?s1\<lparr>decoder := \<lparr>toks = tokens_of v1 @ members_tokens post @ TObjEnd # rest,
                     calls = calls (decoder ?s1) @ [CallPeekKind, CallReadToken]
                             @ visited (length pre) @ [CallPeekKind, CallReadToken]\<rparr>\<rparr>)"
      unfolding navigateToSegment_def atoi_classify_Key [OF KeySegment] option.case
      using toks1 pre' this' unfolding v ms
      by (rule navigateObjectKey_found)
    let ?s3 = "?s1\<lparr>decoder := \<lparr>toks = tokens_of v1 @ members_tokens post @ TObjEnd # rest,
                     calls = calls (decoder ?s1) @ [CallPeekKind, CallReadToken]
                             @ visited (length pre) @ [CallPeekKind, CallReadToken]\<rparr>,
                 pathProgress := pathProgress ?s1 @ [seg]\<rparr>"
    have "toks (decoder ?s3) = tokens_of v1 @ (members_tokens post @ TObjEnd # rest)"
      by simp
    from Cons.IH [OF res plain1 segs this, of "i + 1"] obtain s' rest' where
      "extractSingleValue_loop ?s3 (i + 1) segs = (None, s')" "toks (decoder s') = tokens_of v' @ rest'"
      by blast
    then show ?thesis
      using seg nav by (auto simp: Let_def)
  next
    case (IndexSegment n)
    with Cons.prems(1) obtain vs where v: "v = JArray vs" and n: "n < length vs"
      and res: "resolve_segments atoi_classify (vs ! n) segs = Some v'"
      by (auto split: json.splits if_splits)
    from Cons.prems(2) IndexSegment v n
    have plain1: "plain_keys_along atoi_classify (vs ! n) segs"
      by simp
    have nav: "navigateToSegment ?s1 seg =
       (None, ?s1\<lparr>decoder := \<lparr>toks = tokens_of (vs ! n) @ elements_tokens (drop (Suc n) vs) @ TArrEnd # rest,
                     calls = calls (decoder ?s1) @ [CallPeekKind, CallReadToken] @ skipped n
                             @ [CallPeekKind]\<rparr>\<rparr>)"
      unfolding navigateToSegment_def atoi_classify_Index [OF IndexSegment] option.case
      using toks1 n unfolding v
      by (rule navigateArrayIndex_in_range)
    let ?s3 = "?s1\<lparr>decoder := \<lparr>toks = tokens_of (vs ! n) @ elements_tokens (drop (Suc n) vs) @ TArrEnd # rest,
                     calls = calls (decoder ?s1) @ [CallPeekKind, CallReadToken] @ skipped n
                             @ [CallPeekKind]\<rparr>,
                 pathProgress := pathProgress ?s1 @ [seg]\<rparr>"
    have "toks (decoder ?s3) = tokens_of (vs ! n) @ (elements_tokens (drop (Suc n) vs) @ TArrEnd # rest)"
      by simp
    from Cons.IH [OF res plain1 segs this, of "i + 1"] obtain s' rest' where
      "extractSingleValue_loop ?s3 (i + 1) segs = (None, s')" "toks (decoder s') = tokens_of v' @ rest'"
      by blast
    then show ?thesis
      using seg nav by (auto simp: Let_def)
  next
    case NegativeIndex
    with Cons.prems(1) show ?thesis by simp
  qed
qed

lemma extractSingleValue_resolves:
  assumes "tokenize rdr = tokens_of doc" and "resolves atoi_classify doc sel v"
    and "plain_keys_along atoi_classify doc (strings_Split sel CHR ''.'')"
    and "float64_values v"
  shows "extractSingleValue tokenize rdr sel raw = Inr (dyn_of v)"
proof -
  let ?state = "newExtractState (NewDecoder tokenize rdr) sel raw"
  have segs: "segments ?state = strings_Split sel CHR ''.''"
    by (simp add: newExtractState_def)
  have "toks (decoder ?state) = tokens_of doc @ []"
    using assms(1) by (simp add: newExtractState_def NewDecoder_def)
  from extract_loop_resolves [OF _ assms(3) _ this, of v 0] assms(2)
  obtain s' rest' where loop: "extractSingleValue_loop ?state 0 (strings_Split sel CHR ''.'') = (None, s')"
    and toks: "toks (decoder s') = tokens_of v @ rest'"
    by (auto simp: resolves_def)
  from assms(2) have "sel \<noteq> []"
    by (simp add: resolves_def)
  then show ?thesis
    using loop UnmarshalDecode_tokens_of [OF toks assms(4)]
    by (simp add: extractSingleValue_def Let_def segs)
qed

section \<open>The batch and the single-value operations\<close>

lemma ExtractValues_loop_result:
  "ExtractValues_loop tokenize raw sels (vm, errs) =
     ((\<lambda>s. if s \<in> set sels
           then (case extractSingleValue tokenize raw s raw of Inr v \<Rightarrow> Some v | Inl e \<Rightarrow> vm s)
           else vm s),
      errs @ map projl (filter isl (map (\<lambda>s. extractSingleValue tokenize raw s raw) sels)))"
proof (induction sels arbitrary: vm errs)
  case Nil
  then show ?case by simp
next
  case (Cons sel sels)
  show ?case
  proof (cases "extractSingleValue tokenize raw sel raw")
    case (Inl e)
    then show ?thesis
      by (auto simp: Cons.IH split: sum.splits)
  next
    case (Inr v)
    then show ?thesis
      by (auto simp: Cons.IH fun_eq_iff split: sum.splits)
  qed
qed

lemma ExtractValuesFromReader_valid:
  assumes "failure r = None" and "sels \<noteq> []"
  shows "ExtractValuesFromReader tokenize (Some r) sels =
     \<lparr>valuesMap = (\<lambda>s. if s \<in> set sels
                        then (case extractSingleValue tokenize (content r) s (content r) of
                                Inr v \<Rightarrow> Some v | Inl e \<Rightarrow> None)
                        else None),
      notFound = filter (\<lambda>s. isl (extractSingleValue tokenize (content r) s (content r))) sels,
      err = CombineErrs (map projl (filter isl
              (map (\<lambda>s. extractSingleValue tokenize (content r) s (content r)) sels)))\<rparr>"
proof -
  have "filter (\<lambda>s. (if s \<in> set sels
                        then (case extractSingleValue tokenize (content r) s (content r) of
                                Inr v \<Rightarrow> Some v | Inl e \<Rightarrow> None)
                        else None) = None) sels
      = filter (\<lambda>s. isl (extractSingleValue tokenize (content r) s (content r))) sels"
    by (rule filter_cong) (auto split: sum.splits)
  then show ?thesis
    using assms
    by (simp add: ExtractValuesFromReader_def readAllBytes_def ExtractValues_loop_result
        CombineErrs_def)
qed

lemma ExtractValuesFromBytes_valid:
  "raw \<noteq> [] \<Longrightarrow>
   ExtractValuesFromBytes tokenize raw sels =
   ExtractValuesFromReader tokenize (Some (bytes_NewReader raw)) sels"
  by (simp add: ExtractValuesFromBytes_def)

lemma single_results:
  "ExtractValuesFromReader tokenize (Some (bytes_NewReader raw)) [sel] =
     (case extractSingleValue tokenize raw sel raw of
        Inl e \<Rightarrow> \<lparr>valuesMap = Map.empty, notFound = [sel], err = Some (Joined [e])\<rparr>
      | Inr v \<Rightarrow> \<lparr>valuesMap = [sel \<mapsto> v], notFound = [], err = None\<rparr>)"
  by (subst ExtractValuesFromReader_valid)
    (auto simp: bytes_NewReader_def CombineErrs_def fun_eq_iff split: sum.splits)

lemma ExtractValueFromReader_single:
  "ExtractValueFromReader tokenize (Some (bytes_NewReader raw)) sel =
     (case extractSingleValue tokenize raw sel raw of
        Inl e \<Rightarrow> Inl (WithErr [sentinelPart ErrFailedToExtractValueFromJSON,
                               sentinelPart ErrExtractingFromJSONByReader,
                               PString ''selector'', PSelector sel,
                               PError (Joined [e])])
      | Inr v \<Rightarrow> Inr v)"
  by (simp add: ExtractValueFromReader_def single_results split: sum.splits)

lemma ExtractValueFromBytes_single:
  "raw \<noteq> [] \<Longrightarrow>
   ExtractValueFromBytes tokenize raw sel =
     (case extractSingleValue tokenize raw sel raw of
        Inl e \<Rightarrow> Inl (WithErr [sentinelPart ErrFailedToExtractValueFromJSON,
                               sentinelPart ErrExtractingFromJSONBytes,
                               PString ''selector'', PSelector sel,
                               PError (Joined [e])])
      | Inr v \<Rightarrow> Inr v)"
  by (simp add: ExtractValueFromBytes_def ExtractValuesFromBytes_valid single_results
      split: sum.splits)

section \<open>The categories of the errors\<close>

lemma errors_Is_enrichError:
  "errors_Is (enrichError s parts) t = errors_Is (Composite parts) t"
proof -
  let ?P = "\<lambda>p. case p of PError e \<Rightarrow> errors_Is e t | _ \<Rightarrow> False"
  let ?n = "length (takeWhile is_error_part parts)"
  have "list_ex ?P (take ?n parts @ drop ?n parts) = list_ex ?P parts"
    by simp
  then have "(list_ex ?P (take ?n parts) \<or> list_ex ?P (drop ?n parts)) = list_ex ?P parts"
    by (simp only: list_ex_append)
  then show ?thesis
    by (simp add: enrichError_def NewErr_def Let_def)
qed

lemma array_loop_errors:
  "navigateArrayIndex_loop s t c = (Some e, s', c') \<Longrightarrow> errors_Is e x \<Longrightarrow>
   x \<in> {ErrJSONPathTraversalFailed, ErrJSONIndexOutOfRange, ErrJSONTokenReadFailed}"
proof (induction s t c rule: navigateArrayIndex_loop.induct)
  case (1 s targetIdx currentIdx)
  from "1.prems" show ?case
    apply (subst (asm) navigateArrayIndex_loop.simps)
    apply (auto simp: errors_Is_enrichError split: if_splits prod.splits option.splits
        dest: "1.IH" [rotated -2])
    done
qed

lemma object_loop_errors:
  "navigateObjectKey_loop s k avail = (Some e, s') \<Longrightarrow> errors_Is e x \<Longrightarrow>
   x \<in> {ErrJSONPathTraversalFailed, ErrJSONPathSegmentNotFound, ErrJSONTokenReadFailed}"
proof (induction s k avail rule: navigateObjectKey_loop.induct)
  case (1 s targetKey availableKeys)
  from "1.prems" show ?case
    apply (subst (asm) navigateObjectKey_loop.simps)
    apply (auto simp: errors_Is_enrichError Let_def split: if_splits prod.splits option.splits sum.splits
        dest: "1.IH" [rotated -2])
    done
qed

lemma navigateArrayIndex_errors:
  "navigateArrayIndex s i = (Some e, s') \<Longrightarrow> errors_Is e x \<Longrightarrow>
   x \<in> {ErrJSONPathTraversalFailed, ErrJSONIndexOutOfRange, ErrJSONTokenReadFailed,
        ErrJSONPathExpectedArrayAtSegment}"
  by (auto simp: navigateArrayIndex_def errors_Is_enrichError
      split: if_splits prod.splits option.splits sum.splits dest: array_loop_errors)

lemma navigateObjectKey_errors:
  "navigateObjectKey s k = (Some e, s') \<Longrightarrow> errors_Is e x \<Longrightarrow>
   x \<in> {ErrJSONPathTraversalFailed, ErrJSONPathSegmentNotFound, ErrJSONTokenReadFailed,
        ErrJSONPathExpectedObjectAtSegment}"
  by (auto simp: navigateObjectKey_def errors_Is_enrichError
      split: if_splits prod.splits option.splits sum.splits dest: object_loop_errors)

lemma navigateToSegment_errors:
  "navigateToSegment s seg = (Some e, s') \<Longrightarrow> errors_Is e x \<Longrightarrow>
   x \<in> {ErrJSONPathTraversalFailed, ErrJSONIndexOutOfRange, ErrJSONTokenReadFailed,
        ErrJSONPathSegmentNotFound, ErrJSONPathExpectedArrayAtSegment,
        ErrJSONPathExpectedObjectAtSegment}"
  by (auto simp: navigateToSegment_def split: option.splits
      dest: navigateArrayIndex_errors navigateObjectKey_errors)

lemma extract_loop_errors:
  "extractSingleValue_loop s i segs = (Some e, s') \<Longrightarrow> errors_Is e x \<Longrightarrow>
   x \<in> traversal_sentinels"
proof (induction segs arbitrary: s i)
  case Nil
  then show ?case by simp
next
  case (Cons seg segs)
  from Cons.prems show ?case
    by (auto simp: Let_def errors_Is_enrichError traversal_sentinels_def
        split: if_splits prod.splits option.splits
        dest: navigateToSegment_errors Cons.IH)
qed

lemma extractSingleValue_errors:
  "extractSingleValue tokenize rdr sel raw = Inl e \<Longrightarrow> errors_Is e x \<Longrightarrow>
   x \<in> traversal_sentinels"
  by (auto simp: extractSingleValue_def Let_def errors_Is_enrichError NewErr_def
      split: if_splits prod.splits option.splits sum.splits dest: extract_loop_errors)
    (simp_all add: traversal_sentinels_def)

lemma reader_partitions:
  assumes "failure r = None" and "sels \<noteq> []"
  shows "partitions (ExtractValuesFromReader tokenize (Some r) sels) sels"
proof -
  let ?f = "\<lambda>s. extractSingleValue tokenize (content r) s (content r)"
  have d: "dom (\<lambda>s. if s \<in> set sels then (case ?f s of Inr v \<Rightarrow> Some v | Inl e \<Rightarrow> None) else None)
      = {s \<in> set sels. \<not> isl (?f s)}"
  proof -
    have "((if s \<in> set sels then (case ?f s of Inr v \<Rightarrow> Some v | Inl e \<Rightarrow> None) else None) \<noteq> None)
        = (s \<in> set sels \<and> \<not> isl (?f s))" for s
      by (cases "?f s") simp_all
    then show ?thesis
      unfolding dom_def by simp
  qed
  have "filter (\<lambda>s. isl (?f s)) sels = filter (\<lambda>s. s \<notin> {s \<in> set sels. \<not> isl (?f s)}) sels"
    by (rule filter_cong) auto
  then show ?thesis
    unfolding ExtractValuesFromReader_valid [OF assms] partitions_def
    by (auto simp: d)
qed

lemma collected_errors_eq:
  "map projl (filter isl (map f sels)) = collected_errors f sels"
  by (induction sels) (auto simp: collected_errors_def split: sum.splits)

lemma collected_errors_empty:
  "(collected_errors f sels = []) = (\<forall>s\<in>set sels. \<not> isl (f s))"
  by (induction sels) (auto simp: collected_errors_def split: sum.splits)

lemma collected_errors_member:
  "s \<in> set sels \<Longrightarrow> f s = Inl e \<Longrightarrow> e \<in> set (collected_errors f sels)"
  by (induction sels) (auto simp: collected_errors_def split: sum.splits)

lemma reader_aggregates:
  assumes "failure r = None" and "sels \<noteq> []"
  shows "aggregates (ExtractValuesFromReader tokenize (Some r) sels)
           (\<lambda>s. extractSingleValue tokenize (content r) s (content r)) sels"
proof -
  let ?f = "\<lambda>s. extractSingleValue tokenize (content r) s (content r)"
  let ?res = "ExtractValuesFromReader tokenize (Some r) sels"
  have res: "valuesMap ?res = (\<lambda>s. if s \<in> set sels
                        then (case ?f s of Inr v \<Rightarrow> Some v | Inl e \<Rightarrow> None) else None)"
    "notFound ?res = filter (\<lambda>s. isl (?f s)) sels"
    "err ?res = CombineErrs (collected_errors ?f sels)"
    unfolding ExtractValuesFromReader_valid [OF assms] collected_errors_eq by simp_all
  have one: "(err ?res \<noteq> None) = (\<exists>s\<in>set sels. isl (?f s))"
    by (simp add: res CombineErrs_def collected_errors_empty)
  have each: "case ?f s of
              Inl e \<Rightarrow> (\<exists>es. err ?res = Some (Joined es) \<and> e \<in> set es)
                       \<and> valuesMap ?res s = None \<and> s \<in> set (notFound ?res)
            | Inr v \<Rightarrow> valuesMap ?res s = Some v \<and> s \<notin> set (notFound ?res)"
    if "s \<in> set sels" for s
  proof (cases "?f s")
    case (Inl e)
    with that have "e \<in> set (collected_errors ?f sels)"
      by (intro collected_errors_member)
    then have "\<exists>es. err ?res = Some (Joined es) \<and> e \<in> set es"
      by (auto simp: res CombineErrs_def)
    then show ?thesis
      using Inl that by (simp add: res)
  next
    case (Inr v)
    then show ?thesis
      using that by (simp add: res)
  qed
  show ?thesis
    unfolding aggregates_def using one res(3) each by blast
qed

lemma count_list_filter:
  "count_list (filter P xs) s = (if P s then count_list xs s else 0)"
  by (induction xs) auto

lemma collected_errors_notFound:
  "map Inl (collected_errors f sels) = map f (filter (\<lambda>s. isl (f s)) sels)"
  by (induction sels) (auto simp: collected_errors_def split: sum.splits)

lemma reader_per_occurrence:
  assumes "failure r = None" and "sels \<noteq> []" and "s \<in> set sels"
  shows "per_occurrence (ExtractValuesFromReader tokenize (Some r) sels)
           (\<lambda>s. extractSingleValue tokenize (content r) s (content r)) sels s"
proof -
  let ?f = "\<lambda>s. extractSingleValue tokenize (content r) s (content r)"
  let ?res = "ExtractValuesFromReader tokenize (Some r) sels"
  have res: "valuesMap ?res = (\<lambda>s. if s \<in> set sels
                        then (case ?f s of Inr v \<Rightarrow> Some v | Inl e \<Rightarrow> None) else None)"
    "notFound ?res = filter (\<lambda>s. isl (?f s)) sels"
    "err ?res = CombineErrs (collected_errors ?f sels)"
    unfolding ExtractValuesFromReader_valid [OF assms(1,2)] collected_errors_eq by simp_all
  show ?thesis
  proof (cases "?f s")
    case (Inl e)
    with assms(3) have "collected_errors ?f sels \<noteq> []"
      using collected_errors_member [of s sels ?f e] by auto
    then have "err ?res = Some (Joined (collected_errors ?f sels))"
      by (simp add: res CombineErrs_def)
    moreover have "map Inl (collected_errors ?f sels) = map ?f (notFound ?res)"
      by (simp add: res collected_errors_notFound)
    ultimately have "\<exists>es. err ?res = Some (Joined es) \<and> map Inl es = map ?f (notFound ?res)"
      by blast
    then show ?thesis
      using Inl assms(3) by (simp add: per_occurrence_def res(1,2) count_list_filter)
  next
    case (Inr v)
    then show ?thesis
      using assms(3) by (simp add: per_occurrence_def res(1,2) count_list_filter)
  qed
qed

section \<open>The single-value operations and the empty body\<close>

lemma reader_single_results:
  assumes "failure r = None"
  shows "ExtractValuesFromReader tokenize (Some r) [sel] =
     (case extractSingleValue tokenize (content r) sel (content r) of
        Inl e \<Rightarrow> \<lparr>valuesMap = Map.empty, notFound = [sel], err = Some (Joined [e])\<rparr>
      | Inr v \<Rightarrow> \<lparr>valuesMap = [sel \<mapsto> v], notFound = [], err = None\<rparr>)"
  using assms
  by (subst ExtractValuesFromReader_valid)
    (auto simp: CombineErrs_def fun_eq_iff split: sum.splits)

lemma errors_Is_WithErr:
  "errors_Is (WithErr ps) t = list_ex (\<lambda>p. case p of PError e \<Rightarrow> errors_Is e t | _ \<Rightarrow> False) ps"
  "errors_Is (NewErr ps) t = list_ex (\<lambda>p. case p of PError e \<Rightarrow> errors_Is e t | _ \<Rightarrow> False) ps"
  by (simp_all add: WithErr_def NewErr_def)

lemma batch_error_sentinels:
  assumes "err (ExtractValuesFromReader tokenize rdr sels) = Some e" and "errors_Is e t"
  shows "t \<in> traversal_sentinels \<union> {ErrJSONBodyCannotBeEmpty, ErrJSONReadFailed}"
proof (cases rdr)
  case None
  with assms show ?thesis
    by (auto simp: ExtractValuesFromReader_def errors_Is_WithErr traversal_sentinels_def)
next
  case (Some r)
  consider "sels = []" | m where "sels \<noteq> []" "failure r = Some m"
    | "sels \<noteq> []" "failure r = None"
    by (cases "failure r") auto
  then show ?thesis
  proof cases
    case 1
    with assms Some show ?thesis
      by (auto simp: ExtractValuesFromReader_def errors_Is_WithErr traversal_sentinels_def)
  next
    case 2
    with assms Some show ?thesis
      by (auto simp: ExtractValuesFromReader_def errors_Is_WithErr traversal_sentinels_def
          readAllBytes_def)
  next
    case 3
    then have valid: "failure r = None" "sels \<noteq> []" by auto
    let ?f = "\<lambda>s. extractSingleValue tokenize (content r) s (content r)"
    have "CombineErrs (collected_errors ?f sels) = Some e"
      using assms(1) unfolding Some ExtractValuesFromReader_valid [OF valid] collected_errors_eq
      by simp
    then have e: "e = Joined (collected_errors ?f sels)"
      by (simp add: CombineErrs_def split: if_splits)
    with assms(2) obtain e' where "e' \<in> set (collected_errors ?f sels)" "errors_Is e' t"
      by (auto simp: list_ex_iff)
    then obtain s where "?f s = Inl e'"
      by (auto simp: collected_errors_def split: sum.splits)
    with \<open>errors_Is e' t\<close> show ?thesis
      using extractSingleValue_errors by blast
  qed
qed

lemma reader_never_selector_not_found:
  "\<not> fails_with (ExtractValueFromReader tokenize rdr sel) ErrJSONSelectorNotFound"
proof (cases "err (ExtractValuesFromReader tokenize rdr [sel])")
  case None
  then obtain r where r: "rdr = Some r"
    by (cases rdr) (auto simp: ExtractValuesFromReader_def)
  have ok: "failure r = None"
    using None r by (cases "failure r") (auto simp: ExtractValuesFromReader_def readAllBytes_def)
  show ?thesis
    using None unfolding r ExtractValueFromReader_def reader_single_results [OF ok]
    by (auto simp: fails_with_def Let_def split: sum.splits)
next
  case (Some e)
  have "\<not> errors_Is e ErrJSONSelectorNotFound"
    using batch_error_sentinels [OF Some] by (auto simp: traversal_sentinels_def)
  then show ?thesis
    using Some by (simp add: ExtractValueFromReader_def fails_with_def errors_Is_WithErr)
qed

lemma bytes_never_selector_not_found:
  "\<not> fails_with (ExtractValueFromBytes tokenize raw sel) ErrJSONSelectorNotFound"
proof (cases "raw = []")
  case True
  then show ?thesis
    by (simp add: ExtractValueFromBytes_def ExtractValuesFromBytes_def fails_with_def
        errors_Is_WithErr)
next
  case False
  have ok: "failure (bytes_NewReader raw) = None" "content (bytes_NewReader raw) = raw"
    by (simp_all add: bytes_NewReader_def)
  show ?thesis
  proof (cases "extractSingleValue tokenize raw sel raw")
    case (Inl e)
    then have "\<not> errors_Is e ErrJSONSelectorNotFound"
      using extractSingleValue_errors [of tokenize raw sel raw e ErrJSONSelectorNotFound]
      by (auto simp: traversal_sentinels_def)
    with Inl False show ?thesis
      by (simp add: ExtractValueFromBytes_def ExtractValuesFromBytes_valid
          reader_single_results [OF ok(1)] ok(2) fails_with_def errors_Is_WithErr)
  next
    case (Inr v)
    with False show ?thesis
      by (simp add: ExtractValueFromBytes_def ExtractValuesFromBytes_valid
          reader_single_results [OF ok(1)] ok(2) fails_with_def)
  qed
qed

lemma strings_Split_not_Nil: "strings_Split s c \<noteq> []"
  by (induction s) (auto split: list.splits)

lemma empty_document_fails:
  assumes "tokenize rdr = []"
  shows "\<exists>e. extractSingleValue tokenize rdr sel raw = Inl e
           \<and> errors_Is e ErrJSONPathTraversalFailed"
proof (cases "sel = []")
  case True
  then show ?thesis
    by (simp add: extractSingleValue_def NewErr_def)
next
  case False
  let ?state = "newExtractState (NewDecoder tokenize rdr) sel raw"
  obtain seg segs where segs: "strings_Split sel CHR ''.'' = seg # segs"
    using strings_Split_not_Nil [of sel "CHR ''.''"] by (cases "strings_Split sel CHR ''.''") auto
  have toks: "toks (decoder ?state) = []"
    using assms by (simp add: newExtractState_def NewDecoder_def)
  have "\<exists>e s'. navigateToSegment (?state\<lparr>position := 0\<rparr>) seg = (Some e, s')
      \<and> errors_Is e ErrJSONPathTraversalFailed"
    by (auto simp: navigateToSegment_def navigateArrayIndex_def navigateObjectKey_def
        PeekKind_eq toks errors_Is_enrichError split: option.splits)
  then have "\<exists>e s'. extractSingleValue_loop ?state 0 (seg # segs) = (Some e, s')
      \<and> errors_Is e ErrJSONPathTraversalFailed"
    by (auto simp: Let_def errors_Is_enrichError)
  then show ?thesis
    using False segs by (auto simp: extractSingleValue_def Let_def newExtractState_def)
qed

section \<open>The loop over the segments\<close>

lemma same_session_decoder [simp]:
  "same_session s (s\<lparr>decoder := d\<rparr>)"
  "same_session (s\<lparr>decoder := d\<rparr>) s' = same_session s s'"
  by (simp_all add: same_session_def)

lemma array_loop_frame:
  "navigateArrayIndex_loop s t c = (r, s', c') \<Longrightarrow> same_session s s'"
proof (induction s t c rule: navigateArrayIndex_loop.induct)
  case (1 s targetIdx currentIdx)
  from "1.prems" show ?case
    apply (subst (asm) navigateArrayIndex_loop.simps)
    apply (auto split: if_splits prod.splits option.splits dest!: "1.IH" [rotated -1])
    apply (simp add: same_session_def)
    done
qed

lemma object_loop_frame:
  "navigateObjectKey_loop s k avail = (r, s') \<Longrightarrow> same_session s s'"
proof (induction s k avail rule: navigateObjectKey_loop.induct)
  case (1 s targetKey availableKeys)
  from "1.prems" show ?case
    apply (subst (asm) navigateObjectKey_loop.simps)
    apply (auto simp: Let_def split: if_splits prod.splits option.splits sum.splits
        dest!: "1.IH" [rotated -1])
    done
qed

lemma navigateToSegment_frame:
  "navigateToSegment s seg = (r, s') \<Longrightarrow> same_session s s'"
  by (auto simp: navigateToSegment_def navigateArrayIndex_def navigateObjectKey_def
      split: option.splits if_splits prod.splits sum.splits
      dest!: array_loop_frame object_loop_frame)
    (simp_all add: same_session_def)

lemma extract_loop_progress:
  "extractSingleValue_loop s i segs = (None, s') \<Longrightarrow>
   pathProgress s' = pathProgress s @ segs"
proof (induction segs arbitrary: s i)
  case Nil
  then show ?case by simp
next
  case (Cons seg segs)
  from Cons.prems obtain s2 where nav: "navigateToSegment (s\<lparr>position := i\<rparr>) seg = (None, s2)"
    and rest: "extractSingleValue_loop (s2\<lparr>pathProgress := pathProgress s2 @ [seg]\<rparr>) (i + 1) segs
        = (None, s')"
    by (auto simp: Let_def split: if_splits prod.splits option.splits)
  from navigateToSegment_frame [OF nav] have "pathProgress s2 = pathProgress s"
    by (simp add: same_session_def)
  with Cons.IH [OF rest] show ?case
    by simp
qed

lemma extract_loop_append:
  "extractSingleValue_loop s i (xs @ ys) =
     (case extractSingleValue_loop s i xs of
        (Some e, s') \<Rightarrow> (Some e, s')
      | (None, s') \<Rightarrow> extractSingleValue_loop s' (i + length xs) ys)"
proof (induction xs arbitrary: s i)
  case Nil
  then show ?case by simp
next
  case (Cons x xs)
  show ?case
    by (auto simp: Let_def Cons.IH split: prod.splits option.splits)
qed

lemma extract_loop_errors_nonempty:
  "extractSingleValue_loop s i segs = (Some e, s') \<Longrightarrow> [] \<notin> set segs \<Longrightarrow>
   \<not> errors_Is e ErrJSONPathContainsEmptySegment"
proof (induction segs arbitrary: s i)
  case Nil
  then show ?case by simp
next
  case (Cons seg segs)
  from Cons.prems show ?case
    by (auto simp: Let_def split: if_splits prod.splits option.splits
        dest: navigateToSegment_errors Cons.IH)
qed

section \<open>Array indices and quoted keys\<close>

lemma count_skipped: "count_list (skipped n) CallSkipValue = n"
  by (induction n) simp_all




lemma context_of_index_error:
  "context_value (enrichError s
      [sentinelPart ErrJSONPathTraversalFailed, sentinelPart ErrJSONIndexOutOfRange,
       PString ''target_index'', PInt i, PString ''array_length'', PInt n]) ''target_index''
     = Some (PInt i)"
  "context_value (enrichError s
      [sentinelPart ErrJSONPathTraversalFailed, sentinelPart ErrJSONIndexOutOfRange,
       PString ''target_index'', PInt i, PString ''array_length'', PInt n]) ''array_length''
     = Some (PInt n)"
  "context_value (enrichError s
      [sentinelPart ErrJSONPathTraversalFailed, sentinelPart ErrJSONIndexOutOfRange,
       PString ''target_index'', PInt i]) ''target_index''
     = Some (PInt i)"
  "context_value (enrichError s
      [sentinelPart ErrJSONPathTraversalFailed, sentinelPart ErrJSONIndexOutOfRange,
       PString ''target_index'', PInt i]) ''array_length''
     = None"
  by (simp_all add: enrichError_def NewErr_def Let_def is_error_part_def)

lemma context_of_key_error:
  "context_value (enrichError s
      [sentinelPart ErrJSONPathTraversalFailed, sentinelPart ErrJSONPathSegmentNotFound,
       PString ''missing_key'', PString k, PString ''available_keys'', PStrings ks]) ''missing_key''
     = Some (PString k)"
  "context_value (enrichError s
      [sentinelPart ErrJSONPathTraversalFailed, sentinelPart ErrJSONPathSegmentNotFound,
       PString ''missing_key'', PString k, PString ''available_keys'', PStrings ks]) ''available_keys''
     = Some (PStrings ks)"
  by (simp_all add: enrichError_def NewErr_def Let_def is_error_part_def)

section \<open>Numbers outside the range of \<open>float64\<close>\<close>

text \<open>
  \<open>UnmarshalDecode\<close> stops at the first number that does not convert: a value that
  resolves but holds such a number is not returned, the extraction fails with
  \<open>ErrJSONStreamingParseFailed\<close> and \<open>ErrJSONUnmarshalFailed\<close>. \<open>SkipValue\<close> does not
  convert, so such a number in a part of the document that is skipped does no harm.
\<close>

lemma read_elements:
  "\<forall>w \<in> set ws. float64_values w \<Longrightarrow>
   read_value True (InArray acc # st) (elements_tokens ws @ r)
     = read_value True (InArray (rev (map dyn_of ws) @ acc) # st) r"
proof (induction ws arbitrary: acc)
  case Nil
  then show ?case by simp
next
  case (Cons w ws)
  then show ?case
    using read_value_tokens_of [of "InArray acc # st" True w "elements_tokens ws @ r"]
    by (simp add: after_put_def)
qed

lemma read_members:
  "\<forall>m \<in> set ws. float64_values (snd m) \<Longrightarrow>
   read_value True (InObject acc None # st) (members_tokens ws @ r)
     = read_value True (InObject (rev (map (\<lambda>m. (fst m, dyn_of (snd m))) ws) @ acc) None # st) r"
proof (induction ws arbitrary: acc)
  case Nil
  then show ?case by simp
next
  case (Cons w ws)
  obtain k x where w: "w = (k, x)" by (cases w)
  with Cons show ?case
    using read_value_tokens_of [of "InObject acc (Some k) # st" True x "members_tokens ws @ r"]
    by (simp add: after_put_def feed_def)
qed

lemma read_value_out_of_range:
  "\<not> awaits_name st \<Longrightarrow> \<not> float64_values v \<Longrightarrow>
   read_value True st (tokens_of v @ rest) = Inl RangeError"
proof (induction v arbitrary: st rest)
  case (JArray vs)
  from JArray.prems(2) have "\<exists>w \<in> set vs. \<not> float64_values w" by simp
  from split_list_first_prop [OF this]
  obtain pre w post where vs: "vs = pre @ w # post" and w: "\<not> float64_values w"
    and pre: "\<forall>x \<in> set pre. float64_values x"
    by auto
  have "w \<in> set vs" using vs by simp
  from JArray.IH [OF this _ w, of "InArray (rev (map dyn_of pre)) # st" "elements_tokens post @ TArrEnd # rest"]
  have "read_value True (InArray (rev (map dyn_of pre)) # st)
          (tokens_of w @ elements_tokens post @ TArrEnd # rest) = Inl RangeError"
    by simp
  moreover have "elements_tokens vs = elements_tokens pre @ tokens_of w @ elements_tokens post"
    using vs by (simp add: elements_tokens_def)
  ultimately show ?case
    using JArray.prems(1) pre read_elements [of pre "[]" st "tokens_of w @ elements_tokens post @ TArrEnd # rest"]
    by (simp add: tokens_of_JArray feed_def del: tokens_of.simps)
next
  case (JObject ms)
  from JObject.prems(2) have "\<exists>m \<in> set ms. \<not> float64_values (snd m)" by simp
  from split_list_first_prop [OF this]
  obtain pre m post where ms: "ms = pre @ m # post" and m: "\<not> float64_values (snd m)"
    and pre: "\<forall>x \<in> set pre. float64_values (snd x)"
    by auto
  obtain k x where kx: "m = (k, x)" by (cases m)
  have "(k, x) \<in> set ms" using ms kx by simp
  from JObject.IH [OF this, of x "InObject (rev (map (\<lambda>m. (fst m, dyn_of (snd m))) pre)) (Some k) # st"
      "members_tokens post @ TObjEnd # rest"] m kx
  have "read_value True (InObject (rev (map (\<lambda>m. (fst m, dyn_of (snd m))) pre)) (Some k) # st)
          (tokens_of x @ members_tokens post @ TObjEnd # rest) = Inl RangeError"
    by simp
  then show ?case
    using JObject.prems(1) pre ms kx
      read_members [of pre "[]" st "TString k # tokens_of x @ members_tokens post @ TObjEnd # rest"]
    by (simp add: tokens_of_JObject feed_def del: tokens_of.simps)
qed (simp_all add: feed_def)

lemma UnmarshalDecode_out_of_range:
  "toks d = tokens_of v @ rest \<Longrightarrow> \<not> float64_values v \<Longrightarrow>
   UnmarshalDecode d = (Inl RangeError, logged CallUnmarshalDecode d)"
  by (simp add: UnmarshalDecode_def read_value_out_of_range)

lemma extractSingleValue_out_of_range:
  assumes "tokenize rdr = tokens_of doc" and "resolves atoi_classify doc sel v"
    and "plain_keys_along atoi_classify doc (strings_Split sel CHR ''.'')"
    and "\<not> float64_values v"
  shows "\<exists>s. extractSingleValue tokenize rdr sel raw =
           Inl (enrichError s
                  [sentinelPart ErrJSONStreamingParseFailed, sentinelPart ErrJSONUnmarshalFailed,
                   PError (DecoderError RangeError)])"
proof -
  let ?state = "newExtractState (NewDecoder tokenize rdr) sel raw"
  have segs: "segments ?state = strings_Split sel CHR ''.''"
    by (simp add: newExtractState_def)
  have "toks (decoder ?state) = tokens_of doc @ []"
    using assms(1) by (simp add: newExtractState_def NewDecoder_def)
  from extract_loop_resolves [OF _ assms(3) _ this, of v 0] assms(2)
  obtain s' rest' where loop: "extractSingleValue_loop ?state 0 (strings_Split sel CHR ''.'') = (None, s')"
    and toks: "toks (decoder s') = tokens_of v @ rest'"
    by (auto simp: resolves_def)
  from assms(2) have "sel \<noteq> []"
    by (simp add: resolves_def)
  then show ?thesis
    using loop UnmarshalDecode_out_of_range [OF toks assms(4)]
    by (auto simp add: extractSingleValue_def Let_def segs)
qed

lemma extractSingleValue_out_of_range_fails:
  assumes "tokenize rdr = tokens_of doc" and "resolves atoi_classify doc sel v"
    and "plain_keys_along atoi_classify doc (strings_Split sel CHR ''.'')"
    and "\<not> float64_values v"
  shows "fails_with (extractSingleValue tokenize rdr sel raw) ErrJSONUnmarshalFailed"
    and "fails_with (extractSingleValue tokenize rdr sel raw) ErrJSONStreamingParseFailed"
  using extractSingleValue_out_of_range [of tokenize rdr doc sel v raw] assms
  by (auto simp: fails_with_def errors_Is_enrichError)


lemma float64_overflow_large:
  assumes "1 \<le> m" and "342 \<le> e"
  shows "float64_overflow m e"
proof -
  have "(2::int) ^ 1024 \<le> 2 ^ (3 * nat e)"
    using assms(2) by (intro power_increasing) simp_all
  also have "\<dots> = (8::int) ^ nat e"
    by (simp add: power_mult)
  also have "\<dots> \<le> 10 ^ nat e"
    by (intro power_mono) simp_all
  also have "\<dots> \<le> m * 10 ^ nat e"
    using assms(1) by (simp add: mult_le_cancel_right1)
  finally have "(2::int) ^ 1024 \<le> m * 10 ^ nat e" .
  moreover have "(2::int) ^ 1024 - 2 ^ 970 \<le> 2 ^ 1024"
    by simp
  ultimately have "(2::int) ^ 1024 - 2 ^ 970 \<le> m * 10 ^ nat e"
    by (rule order_trans [rotated])
  with assms(2) show ?thesis
    by (simp only: float64_overflow_def) simp
qed

lemma number_parts_1e999: "number_parts ''1e999'' = Some (1, 999)"
  by (simp add: number_parts_def exponent_part_def decimal_value_def is_digit_def digit_value_def)

lemma ParseFloat_1e999: "\<not> ParseFloat_ok ''1e999''"
  by (simp add: ParseFloat_ok_def number_parts_1e999 float64_overflow_large)

lemma number_out_of_range:
  \<open>fails_with
     (ExtractValueFromBytes
        (tokenizer_for ''{"n":1e999}'' [TObjStart, TString ''n'', TNumber ''1e999'', TObjEnd])
        ''{"n":1e999}'' ''n'') ErrJSONUnmarshalFailed\<close>
proof -
  let ?tok = \<open>tokenizer_for ''{"n":1e999}'' [TObjStart, TString ''n'', TNumber ''1e999'', TObjEnd]\<close>
  let ?doc = "JObject [(''n'', JNumber ''1e999'')]"
  have a: \<open>?tok ''{"n":1e999}'' = tokens_of ?doc\<close>
    by (simp add: tokenizer_for_def)
  have c: "resolves atoi_classify ?doc ''n'' (JNumber ''1e999'')"
    by (simp add: resolves_def atoi_classify_def strconv_Atoi_def is_digit_def)
  have d: "plain_keys_along atoi_classify ?doc (strings_Split ''n'' CHR ''.'')"
    by (simp add: atoi_classify_def strconv_Atoi_def is_digit_def removeQuotes_def)
  have e: "\<not> float64_values (JNumber ''1e999'')"
    by (simp add: ParseFloat_1e999)
  from extractSingleValue_out_of_range_fails(1)
      [of ?tok \<open>''{"n":1e999}''\<close> ?doc "''n''" "JNumber ''1e999''" \<open>''{"n":1e999}''\<close>, OF a c d e]
  show ?thesis
    by (simp add: ExtractValueFromBytes_single fails_with_def errors_Is_WithErr split: sum.splits)
qed

section \<open>The repository's tests, on the model\<close>

text \<open>
  The cases of \<open>TestStreamingExtractValue\<close>, of
  \<open>TestStreamingExtractValue_UnmarshalErrorIsWrapped\<close> and of
  \<open>TestExtractValuesFromBytes_ErrorCollection\<close>, each with the tokens of its document.
\<close>

lemma test_simple_object_key:
  \<open>ExtractValueFromBytes
     (tokenizer_for ''{"foo":"bar"}'' [TObjStart, TString ''foo'', TString ''bar'', TObjEnd])
     ''{"foo":"bar"}'' ''foo'' = Inr (AString ''bar'')\<close>
  by code_simp

lemma test_nested_object_key:
  \<open>ExtractValueFromBytes
     (tokenizer_for ''{"a":{"b":{"c":123}}}''
        [TObjStart, TString ''a'', TObjStart, TString ''b'', TObjStart, TString ''c'',
         TNumber ''123'', TObjEnd, TObjEnd, TObjEnd])
     ''{"a":{"b":{"c":123}}}'' ''a.b.c'' = Inr (AFloat64 ''123'')\<close>
  by code_simp

lemma test_array_index:
  \<open>ExtractValueFromBytes
     (tokenizer_for ''{"xs":[10,20,30]}''
        [TObjStart, TString ''xs'', TArrStart, TNumber ''10'', TNumber ''20'', TNumber ''30'',
         TArrEnd, TObjEnd])
     ''{"xs":[10,20,30]}'' ''xs.1'' = Inr (AFloat64 ''20'')\<close>
  by code_simp

lemma test_array_of_objects_then_key:
  \<open>ExtractValueFromBytes
     (tokenizer_for ''{"foo":[{"bar":"baz"}]}''
        [TObjStart, TString ''foo'', TArrStart, TObjStart, TString ''bar'', TString ''baz'',
         TObjEnd, TArrEnd, TObjEnd])
     ''{"foo":[{"bar":"baz"}]}'' ''foo.0.bar'' = Inr (AString ''baz'')\<close>
  by code_simp

lemma test_array_index_out_of_range:
  \<open>fails_with
     (ExtractValueFromBytes
        (tokenizer_for ''{"xs":[10,20,30]}''
           [TObjStart, TString ''xs'', TArrStart, TNumber ''10'', TNumber ''20'', TNumber ''30'',
            TArrEnd, TObjEnd])
        ''{"xs":[10,20,30]}'' ''xs.3'')
     ErrJSONIndexOutOfRange\<close>
  by code_simp

lemma test_missing_object_key:
  \<open>fails_with
     (ExtractValueFromBytes
        (tokenizer_for ''{"obj":{"have":1}}''
           [TObjStart, TString ''obj'', TObjStart, TString ''have'', TNumber ''1'', TObjEnd, TObjEnd])
        ''{"obj":{"have":1}}'' ''obj.missing'')
     ErrJSONPathSegmentNotFound\<close>
  by code_simp

lemma test_expects_array_but_found_object:
  \<open>fails_with
     (ExtractValueFromBytes
        (tokenizer_for ''{"obj":{"k":1}}''
           [TObjStart, TString ''obj'', TObjStart, TString ''k'', TNumber ''1'', TObjEnd, TObjEnd])
        ''{"obj":{"k":1}}'' ''obj.0'')
     ErrJSONPathExpectedArrayAtSegment\<close>
  by code_simp

lemma test_expects_object_but_found_array:
  \<open>fails_with
     (ExtractValueFromBytes
        (tokenizer_for ''{"xs":[{"k":1}]}''
           [TObjStart, TString ''xs'', TArrStart, TObjStart, TString ''k'', TNumber ''1'', TObjEnd,
            TArrEnd, TObjEnd])
        ''{"xs":[{"k":1}]}'' ''xs.k'')
     ErrJSONPathExpectedObjectAtSegment\<close>
  by code_simp

lemma test_empty_segment_in_path:
  \<open>fails_with
     (ExtractValueFromBytes
        (tokenizer_for ''{"a":{"b":1}}''
           [TObjStart, TString ''a'', TObjStart, TString ''b'', TNumber ''1'', TObjEnd, TObjEnd])
        ''{"a":{"b":1}}'' ''a..b'')
     ErrJSONPathContainsEmptySegment\<close>
  by code_simp

lemma test_negative_index:
  \<open>fails_with
     (ExtractValueFromBytes
        (tokenizer_for ''{"xs":[0,1]}''
           [TObjStart, TString ''xs'', TArrStart, TNumber ''0'', TNumber ''1'', TArrEnd, TObjEnd])
        ''{"xs":[0,1]}'' ''xs.-1'')
     ErrJSONIndexOutOfRange\<close>
  by code_simp

lemma test_empty_body:
  "fails_with (ExtractValueFromBytes (tokenizer_for [] []) [] ''foo'') ErrJSONPathTraversalFailed
   \<and> fails_with (ExtractValueFromBytes (tokenizer_for [] []) [] ''foo'') ErrJSONBodyCannotBeEmpty"
  by code_simp

lemma test_empty_selector:
  \<open>fails_with
     (ExtractValueFromBytes
        (tokenizer_for ''{"foo":"bar"}'' [TObjStart, TString ''foo'', TString ''bar'', TObjEnd])
        ''{"foo":"bar"}'' [])
     ErrJSONValueSelectorCannotBeEmpty\<close>
  by code_simp

lemma test_unterminated_document:
  \<open>fails_with
     (ExtractValueFromBytes
        (tokenizer_for ''{"unterminated": 1'' [TObjStart, TString ''unterminated'', TNumber ''1''])
        ''{"unterminated": 1'' ''foo'')
     ErrJSONTokenReadFailed\<close>
  by code_simp

lemma test_error_collection:
  \<open>notFound
     (ExtractValuesFromBytes
        (tokenizer_for ''{"valid": "value"}'' [TObjStart, TString ''valid'', TString ''value'', TObjEnd])
        ''{"valid": "value"}'' [''missing1'', ''missing2'', ''valid'', ''missing3''])
     = [''missing1'', ''missing2'', ''missing3'']
   \<and> valuesMap
     (ExtractValuesFromBytes
        (tokenizer_for ''{"valid": "value"}'' [TObjStart, TString ''valid'', TString ''value'', TObjEnd])
        ''{"valid": "value"}'' [''missing1'', ''missing2'', ''valid'', ''missing3'']) ''valid''
     = Some (AString ''value'')\<close>
  by code_simp

section \<open>The claims\<close>

text \<open>
  C1 (as amended). For every well-formed JSON document and every selector whose
  segments resolve to an existing value \<open>v\<close> in it, \<open>ExtractValueFromBytes\<close> and
  \<open>ExtractValueFromReader\<close> return the dynamic value structurally equal to \<open>v\<close>,
  every JSON number being the number variant; where an index segment is a segment that
  \<open>strconv.Atoi\<close> accepts (any other non-empty segment is a key segment), where
  the objects entered by a key segment have no key that both begins and ends with a
  double quote, and where every number inside \<open>v\<close> converts to a finite \<open>float64\<close>
  (its magnitude rounds below \<open>2 ^ 1024\<close>).
\<close>

theorem extractValue_resolved:
  assumes "tokenize raw = tokens_of doc" and "raw \<noteq> []"
    and "content r = raw" and "failure r = None"
    and "resolves atoi_classify doc sel v"
    and "plain_keys_along atoi_classify doc (strings_Split sel CHR ''.'')"
    and "float64_values v"
  shows "ExtractValueFromBytes tokenize raw sel = Inr (dyn_of v)
     \<and> ExtractValueFromReader tokenize (Some r) sel = Inr (dyn_of v)
     \<and> extractSingleValue tokenize raw sel raw = Inr (dyn_of v)"
proof -
  have one: "extractSingleValue tokenize raw sel raw = Inr (dyn_of v)"
    using assms(1,5,6,7) by (rule extractSingleValue_resolves)
  have "ExtractValueFromReader tokenize (Some r) sel = Inr (dyn_of v)"
    by (simp add: ExtractValueFromReader_def reader_single_results [OF assms(4)] assms(3) one)
  with one assms(2) show ?thesis
    by (simp add: ExtractValueFromBytes_single)
qed

text \<open>The amended C1 at the document \<open>{"n":1}\<close> and the selector \<open>n\<close>.\<close>

theorem extractValue_resolved_witness:
  \<open>tokenizer_for ''{"n":1}'' [TObjStart, TString ''n'', TNumber ''1'', TObjEnd] ''{"n":1}''
      = tokens_of (JObject [(''n'', JNumber ''1'')])
   \<and> ''{"n":1}'' \<noteq> []
   \<and> content (bytes_NewReader ''{"n":1}'') = ''{"n":1}''
   \<and> failure (bytes_NewReader ''{"n":1}'') = None
   \<and> resolves atoi_classify (JObject [(''n'', JNumber ''1'')]) ''n'' (JNumber ''1'')
   \<and> plain_keys_along atoi_classify (JObject [(''n'', JNumber ''1'')]) (strings_Split ''n'' CHR ''.'')
   \<and> float64_values (JNumber ''1'')
   \<and> ExtractValueFromBytes
        (tokenizer_for ''{"n":1}'' [TObjStart, TString ''n'', TNumber ''1'', TObjEnd])
        ''{"n":1}'' ''n'' = Inr (AFloat64 ''1'')
   \<and> ExtractValueFromReader
        (tokenizer_for ''{"n":1}'' [TObjStart, TString ''n'', TNumber ''1'', TObjEnd])
        (Some (bytes_NewReader ''{"n":1}'')) ''n'' = Inr (AFloat64 ''1'')\<close>
proof -
  have a: \<open>tokenizer_for ''{"n":1}'' [TObjStart, TString ''n'', TNumber ''1'', TObjEnd] ''{"n":1}''
      = tokens_of (JObject [(''n'', JNumber ''1'')])\<close>
    by (simp add: tokenizer_for_def)
  have b: \<open>''{"n":1}'' \<noteq> []\<close>
    by simp
  have r: \<open>content (bytes_NewReader ''{"n":1}'') = ''{"n":1}''\<close>
    \<open>failure (bytes_NewReader ''{"n":1}'') = None\<close>
    by (simp_all add: bytes_NewReader_def)
  have c: "resolves atoi_classify (JObject [(''n'', JNumber ''1'')]) ''n'' (JNumber ''1'')"
    by (simp add: resolves_def atoi_classify_def strconv_Atoi_def is_digit_def)
  have d: "plain_keys_along atoi_classify (JObject [(''n'', JNumber ''1'')]) (strings_Split ''n'' CHR ''.'')"
    by (simp add: atoi_classify_def strconv_Atoi_def is_digit_def removeQuotes_def)
  have e: "float64_values (JNumber ''1'')"
    by (simp add: ParseFloat_ok_def number_parts_def exponent_part_def decimal_value_def
        float64_overflow_def is_digit_def digit_value_def)
  from extractValue_resolved
      [of \<open>tokenizer_for ''{"n":1}'' [TObjStart, TString ''n'', TNumber ''1'', TObjEnd]\<close>
        \<open>''{"n":1}''\<close>, OF a b r c d e] a b r c d e
  show ?thesis
    by simp
qed

text \<open>
  C1 as stated fails: in \<open>{"+1":5}\<close> the selector \<open>+1\<close> is a key segment for the
  spec (it does not match \<open>^-?[0-9]+$\<close>) and resolves to \<open>5\<close>, but
  \<open>strconv.Atoi\<close> accepts it, so the code navigates an array index and fails with
  \<open>ErrJSONPathExpectedArrayAtSegment\<close>.
\<close>

theorem extractValue_plus_key_counterexample:
  \<open>resolves spec_classify (JObject [(''+1'', JNumber ''5'')]) ''+1'' (JNumber ''5'')
   \<and> ExtractValueFromBytes
        (tokenizer_for ''{"+1":5}'' [TObjStart, TString ''+1'', TNumber ''5'', TObjEnd])
        ''{"+1":5}'' ''+1'' \<noteq> Inr (dyn_of (JNumber ''5''))
   \<and> fails_with (ExtractValueFromBytes
        (tokenizer_for ''{"+1":5}'' [TObjStart, TString ''+1'', TNumber ''5'', TObjEnd])
        ''{"+1":5}'' ''+1'') ErrJSONPathExpectedArrayAtSegment\<close>
  by code_simp

text \<open>
  C2. For every input accepted by the validation (a reader that is not \<open>nil\<close> and
  reads without error, or a non-empty byte buffer; a non-empty selector list), the
  batch operations return a values map and a not-found list that partition the input
  selectors, and the not-found list keeps the input order.
\<close>

theorem batch_partition:
  assumes "sels \<noteq> []" and "failure r = None" and "raw \<noteq> []"
  shows "partitions (ExtractValuesFromReader tokenize (Some r) sels) sels
       \<and> partitions (ExtractValuesFromBytes tokenize raw sels) sels"
proof -
  have "failure (bytes_NewReader raw) = None"
    by (simp add: bytes_NewReader_def)
  with assms show ?thesis
    by (simp add: ExtractValuesFromBytes_valid reader_partitions)
qed

text \<open>C2 at the document \<open>{"a":1}\<close> and the selectors \<open>a\<close>, \<open>zz\<close>, \<open>a\<close>.\<close>

theorem batch_partition_witness:
  \<open>[''a'', ''zz'', ''a''] \<noteq> [] \<and> failure (bytes_NewReader ''{"a":1}'') = None \<and> ''{"a":1}'' \<noteq> []
   \<and> partitions
        (ExtractValuesFromReader
           (tokenizer_for ''{"a":1}'' [TObjStart, TString ''a'', TNumber ''1'', TObjEnd])
           (Some (bytes_NewReader ''{"a":1}'')) [''a'', ''zz'', ''a''])
        [''a'', ''zz'', ''a'']
   \<and> partitions
        (ExtractValuesFromBytes
           (tokenizer_for ''{"a":1}'' [TObjStart, TString ''a'', TNumber ''1'', TObjEnd])
           ''{"a":1}'' [''a'', ''zz'', ''a''])
        [''a'', ''zz'', ''a'']
   \<and> notFound
        (ExtractValuesFromBytes
           (tokenizer_for ''{"a":1}'' [TObjStart, TString ''a'', TNumber ''1'', TObjEnd])
           ''{"a":1}'' [''a'', ''zz'', ''a'']) = [''zz'']\<close>
proof -
  have a: "[''a'', ''zz'', ''a''] \<noteq> []"
    by simp
  have b: \<open>failure (bytes_NewReader ''{"a":1}'') = None\<close>
    by (simp add: bytes_NewReader_def)
  have c: \<open>''{"a":1}'' \<noteq> []\<close>
    by simp
  have d: \<open>notFound
        (ExtractValuesFromBytes
           (tokenizer_for ''{"a":1}'' [TObjStart, TString ''a'', TNumber ''1'', TObjEnd])
           ''{"a":1}'' [''a'', ''zz'', ''a'']) = [''zz'']\<close>
    by code_simp
  from batch_partition [OF a b c] a b c d show ?thesis
    by simp
qed

text \<open>
  C6. For every valid input the batch operations return an aggregated error iff at
  least one selector failed; it joins the error of every failing selector, and the
  values of the selectors that resolved and the not-found list are returned with it.
\<close>

theorem batch_aggregated_error:
  assumes "sels \<noteq> []" and "failure r = None" and "raw \<noteq> []"
  shows "aggregates (ExtractValuesFromReader tokenize (Some r) sels)
           (\<lambda>s. extractSingleValue tokenize (content r) s (content r)) sels
       \<and> aggregates (ExtractValuesFromBytes tokenize raw sels)
           (\<lambda>s. extractSingleValue tokenize raw s raw) sels"
proof -
  have "failure (bytes_NewReader raw) = None" "content (bytes_NewReader raw) = raw"
    by (simp_all add: bytes_NewReader_def)
  with assms reader_aggregates [of "bytes_NewReader raw" sels tokenize] show ?thesis
    by (simp add: ExtractValuesFromBytes_valid reader_aggregates)
qed

text \<open>C6 at the document \<open>{"valid":"value"}\<close> and the selectors \<open>missing1\<close>, \<open>valid\<close>.\<close>

theorem batch_aggregated_error_witness:
  \<open>[''missing1'', ''valid''] \<noteq> [] \<and> failure (bytes_NewReader ''{"valid":"value"}'') = None
   \<and> ''{"valid":"value"}'' \<noteq> []
   \<and> aggregates
        (ExtractValuesFromReader
           (tokenizer_for ''{"valid":"value"}'' [TObjStart, TString ''valid'', TString ''value'', TObjEnd])
           (Some (bytes_NewReader ''{"valid":"value"}'')) [''missing1'', ''valid''])
        (\<lambda>s. extractSingleValue
           (tokenizer_for ''{"valid":"value"}'' [TObjStart, TString ''valid'', TString ''value'', TObjEnd])
           (content (bytes_NewReader ''{"valid":"value"}'')) s
           (content (bytes_NewReader ''{"valid":"value"}'')))
        [''missing1'', ''valid'']
   \<and> aggregates
        (ExtractValuesFromBytes
           (tokenizer_for ''{"valid":"value"}'' [TObjStart, TString ''valid'', TString ''value'', TObjEnd])
           ''{"valid":"value"}'' [''missing1'', ''valid''])
        (\<lambda>s. extractSingleValue
           (tokenizer_for ''{"valid":"value"}'' [TObjStart, TString ''valid'', TString ''value'', TObjEnd])
           ''{"valid":"value"}'' s ''{"valid":"value"}'')
        [''missing1'', ''valid'']
   \<and> reports (err (ExtractValuesFromBytes
           (tokenizer_for ''{"valid":"value"}'' [TObjStart, TString ''valid'', TString ''value'', TObjEnd])
           ''{"valid":"value"}'' [''missing1'', ''valid''])) ErrJSONPathSegmentNotFound
   \<and> valuesMap (ExtractValuesFromBytes
           (tokenizer_for ''{"valid":"value"}'' [TObjStart, TString ''valid'', TString ''value'', TObjEnd])
           ''{"valid":"value"}'' [''missing1'', ''valid'']) ''valid'' = Some (AString ''value'')\<close>
proof -
  have a: "[''missing1'', ''valid''] \<noteq> []"
    by simp
  have b: \<open>failure (bytes_NewReader ''{"valid":"value"}'') = None\<close>
    by (simp add: bytes_NewReader_def)
  have c: \<open>''{"valid":"value"}'' \<noteq> []\<close>
    by simp
  have d: \<open>reports (err (ExtractValuesFromBytes
           (tokenizer_for ''{"valid":"value"}'' [TObjStart, TString ''valid'', TString ''value'', TObjEnd])
           ''{"valid":"value"}'' [''missing1'', ''valid''])) ErrJSONPathSegmentNotFound\<close>
    by code_simp
  have e: \<open>valuesMap (ExtractValuesFromBytes
           (tokenizer_for ''{"valid":"value"}'' [TObjStart, TString ''valid'', TString ''value'', TObjEnd])
           ''{"valid":"value"}'' [''missing1'', ''valid'']) ''valid'' = Some (AString ''value'')\<close>
    by code_simp
  from batch_aggregated_error [OF a b c] a b c d e show ?thesis
    by simp
qed

text \<open>
  C10. A selector that occurs more than once in the input is extracted once for each
  occurrence: when it resolves, the values map has its entry and the not-found list
  does not contain it; when it fails, the not-found list contains it once for each
  occurrence and the aggregated error joins one error for each entry of the not-found
  list.
\<close>

theorem batch_duplicates:
  assumes "sels \<noteq> []" and "failure r = None" and "raw \<noteq> []" and "s \<in> set sels"
  shows "per_occurrence (ExtractValuesFromReader tokenize (Some r) sels)
           (\<lambda>s. extractSingleValue tokenize (content r) s (content r)) sels s
       \<and> per_occurrence (ExtractValuesFromBytes tokenize raw sels)
           (\<lambda>s. extractSingleValue tokenize raw s raw) sels s"
proof -
  have "failure (bytes_NewReader raw) = None" "content (bytes_NewReader raw) = raw"
    by (simp_all add: bytes_NewReader_def)
  with assms reader_per_occurrence [of "bytes_NewReader raw" sels s tokenize] show ?thesis
    by (simp add: ExtractValuesFromBytes_valid reader_per_occurrence)
qed

text \<open>C10 at the document \<open>{"a":1}\<close> and the selectors \<open>zz\<close>, \<open>a\<close>, \<open>zz\<close>.\<close>

theorem batch_duplicates_witness:
  \<open>[''zz'', ''a'', ''zz''] \<noteq> [] \<and> failure (bytes_NewReader ''{"a":1}'') = None \<and> ''{"a":1}'' \<noteq> []
   \<and> ''zz'' \<in> set [''zz'', ''a'', ''zz'']
   \<and> per_occurrence
        (ExtractValuesFromReader
           (tokenizer_for ''{"a":1}'' [TObjStart, TString ''a'', TNumber ''1'', TObjEnd])
           (Some (bytes_NewReader ''{"a":1}'')) [''zz'', ''a'', ''zz''])
        (\<lambda>s. extractSingleValue
           (tokenizer_for ''{"a":1}'' [TObjStart, TString ''a'', TNumber ''1'', TObjEnd])
           (content (bytes_NewReader ''{"a":1}'')) s (content (bytes_NewReader ''{"a":1}'')))
        [''zz'', ''a'', ''zz''] ''zz''
   \<and> per_occurrence
        (ExtractValuesFromBytes
           (tokenizer_for ''{"a":1}'' [TObjStart, TString ''a'', TNumber ''1'', TObjEnd])
           ''{"a":1}'' [''zz'', ''a'', ''zz''])
        (\<lambda>s. extractSingleValue
           (tokenizer_for ''{"a":1}'' [TObjStart, TString ''a'', TNumber ''1'', TObjEnd])
           ''{"a":1}'' s ''{"a":1}'')
        [''zz'', ''a'', ''zz''] ''zz''
   \<and> notFound
        (ExtractValuesFromBytes
           (tokenizer_for ''{"a":1}'' [TObjStart, TString ''a'', TNumber ''1'', TObjEnd])
           ''{"a":1}'' [''zz'', ''a'', ''zz'']) = [''zz'', ''zz'']\<close>
proof -
  have a: "[''zz'', ''a'', ''zz''] \<noteq> []"
    by simp
  have b: \<open>failure (bytes_NewReader ''{"a":1}'') = None\<close>
    by (simp add: bytes_NewReader_def)
  have c: \<open>''{"a":1}'' \<noteq> []\<close>
    by simp
  have d: "''zz'' \<in> set [''zz'', ''a'', ''zz'']"
    by simp
  have e: \<open>notFound
        (ExtractValuesFromBytes
           (tokenizer_for ''{"a":1}'' [TObjStart, TString ''a'', TNumber ''1'', TObjEnd])
           ''{"a":1}'' [''zz'', ''a'', ''zz'']) = [''zz'', ''zz'']\<close>
    by code_simp
  from batch_duplicates [OF a b c d] a b c d e show ?thesis
    by simp
qed

text \<open>
  C4 (as amended). The single-value operations call the batch operation with the one
  selector. Whenever the selector ends up in the not-found list, the batch error is
  present and they return \<open>ErrFailedToExtractValueFromJSON\<close> wrapping the joined
  traversal error of the selector; they never return \<open>ErrJSONSelectorNotFound\<close>.
  Otherwise they return the resolved value.
\<close>

theorem single_value_wraps_failure:
  assumes "failure r = None" and "raw \<noteq> []"
  shows "ExtractValueFromReader tokenize (Some r) sel
           = wraps_failure ErrExtractingFromJSONByReader sel
               (extractSingleValue tokenize (content r) sel (content r))
       \<and> (sel \<in> set (notFound (ExtractValuesFromReader tokenize (Some r) [sel])))
           = isl (extractSingleValue tokenize (content r) sel (content r))
       \<and> ExtractValueFromBytes tokenize raw sel
           = wraps_failure ErrExtractingFromJSONBytes sel (extractSingleValue tokenize raw sel raw)
       \<and> (sel \<in> set (notFound (ExtractValuesFromBytes tokenize raw [sel])))
           = isl (extractSingleValue tokenize raw sel raw)
       \<and> \<not> fails_with (ExtractValueFromReader tokenize (Some r) sel) ErrJSONSelectorNotFound
       \<and> \<not> fails_with (ExtractValueFromBytes tokenize raw sel) ErrJSONSelectorNotFound"
proof -
  have ok: "failure (bytes_NewReader raw) = None" "content (bytes_NewReader raw) = raw"
    by (simp_all add: bytes_NewReader_def)
  have a: "ExtractValueFromReader tokenize (Some r) sel
           = wraps_failure ErrExtractingFromJSONByReader sel
               (extractSingleValue tokenize (content r) sel (content r))"
    by (simp add: ExtractValueFromReader_def reader_single_results [OF assms(1)] wraps_failure_def
        split: sum.splits)
  have b: "(sel \<in> set (notFound (ExtractValuesFromReader tokenize (Some r) [sel])))
           = isl (extractSingleValue tokenize (content r) sel (content r))"
    by (simp add: reader_single_results [OF assms(1)] split: sum.splits)
  have c: "ExtractValueFromBytes tokenize raw sel
           = wraps_failure ErrExtractingFromJSONBytes sel (extractSingleValue tokenize raw sel raw)"
    using assms(2)
    by (simp add: ExtractValueFromBytes_def ExtractValuesFromBytes_valid
        reader_single_results [OF ok(1)] ok(2) wraps_failure_def split: sum.splits)
  have d: "(sel \<in> set (notFound (ExtractValuesFromBytes tokenize raw [sel])))
           = isl (extractSingleValue tokenize raw sel raw)"
    using assms(2)
    by (simp add: ExtractValuesFromBytes_valid reader_single_results [OF ok(1)] ok(2)
        split: sum.splits)
  from a b c d reader_never_selector_not_found bytes_never_selector_not_found
  show ?thesis
    by blast
qed

text \<open>The amended C4 at the document \<open>{"a":1}\<close> and the selector \<open>b\<close>.\<close>

theorem single_value_wraps_failure_witness:
  \<open>failure (bytes_NewReader ''{"a":1}'') = None \<and> ''{"a":1}'' \<noteq> []
   \<and> ExtractValueFromBytes
        (tokenizer_for ''{"a":1}'' [TObjStart, TString ''a'', TNumber ''1'', TObjEnd])
        ''{"a":1}'' ''b''
       = wraps_failure ErrExtractingFromJSONBytes ''b''
           (extractSingleValue
              (tokenizer_for ''{"a":1}'' [TObjStart, TString ''a'', TNumber ''1'', TObjEnd])
              ''{"a":1}'' ''b'' ''{"a":1}'')
   \<and> isl (extractSingleValue
              (tokenizer_for ''{"a":1}'' [TObjStart, TString ''a'', TNumber ''1'', TObjEnd])
              ''{"a":1}'' ''b'' ''{"a":1}'')
   \<and> \<not> fails_with
        (ExtractValueFromReader
           (tokenizer_for ''{"a":1}'' [TObjStart, TString ''a'', TNumber ''1'', TObjEnd])
           (Some (bytes_NewReader ''{"a":1}'')) ''b'')
        ErrJSONSelectorNotFound\<close>
proof -
  have a: \<open>failure (bytes_NewReader ''{"a":1}'') = None\<close>
    by (simp add: bytes_NewReader_def)
  have b: \<open>''{"a":1}'' \<noteq> []\<close>
    by simp
  have c: \<open>isl (extractSingleValue
              (tokenizer_for ''{"a":1}'' [TObjStart, TString ''a'', TNumber ''1'', TObjEnd])
              ''{"a":1}'' ''b'' ''{"a":1}'')\<close>
    by code_simp
  from single_value_wraps_failure
      [where tokenize = \<open>tokenizer_for ''{"a":1}'' [TObjStart, TString ''a'', TNumber ''1'', TObjEnd]\<close>
         and sel = "''b''", OF a b] a b c
  show ?thesis
    by blast
qed

text \<open>
  C4 as stated fails: for \<open>{"a":1}\<close> and the selector \<open>b\<close> the selector is in
  the not-found list, and the error returned is not \<open>ErrJSONSelectorNotFound\<close> but the
  wrapped traversal error, \<open>ErrJSONPathSegmentNotFound\<close>.
\<close>

theorem single_value_not_found_counterexample:
  \<open>''b'' \<in> set (notFound
        (ExtractValuesFromBytes
           (tokenizer_for ''{"a":1}'' [TObjStart, TString ''a'', TNumber ''1'', TObjEnd])
           ''{"a":1}'' [''b'']))
   \<and> \<not> fails_with
        (ExtractValueFromBytes
           (tokenizer_for ''{"a":1}'' [TObjStart, TString ''a'', TNumber ''1'', TObjEnd])
           ''{"a":1}'' ''b'')
        ErrJSONSelectorNotFound
   \<and> fails_with
        (ExtractValueFromBytes
           (tokenizer_for ''{"a":1}'' [TObjStart, TString ''a'', TNumber ''1'', TObjEnd])
           ''{"a":1}'' ''b'')
        ErrJSONPathSegmentNotFound\<close>
  by code_simp

text \<open>
  C5 (as amended). For a non-empty byte sequence the byte-slice variant returns what the
  streaming variant returns for a reader over the same bytes. For the empty body they
  differ: the byte-slice variant reports \<open>ErrJSONPathTraversalFailed\<close> and
  \<open>ErrJSONBodyCannotBeEmpty\<close> and returns no not-found list; the streaming variant
  over an empty reader traverses every selector, returns all of them as not found, and
  reports \<open>ErrJSONPathTraversalFailed\<close> but not \<open>ErrJSONBodyCannotBeEmpty\<close>, which it
  reports for a \<open>nil\<close> reader only. (The decoder delivers no token for no bytes.)
\<close>

theorem bytes_and_reader:
  assumes "sels \<noteq> []" and "tokenize [] = []" and "raw \<noteq> []"
  shows "ExtractValuesFromBytes tokenize raw sels
           = ExtractValuesFromReader tokenize (Some (bytes_NewReader raw)) sels
       \<and> notFound (ExtractValuesFromBytes tokenize [] sels) = []
       \<and> valuesMap (ExtractValuesFromBytes tokenize [] sels) = Map.empty
       \<and> reports (err (ExtractValuesFromBytes tokenize [] sels)) ErrJSONPathTraversalFailed
       \<and> reports (err (ExtractValuesFromBytes tokenize [] sels)) ErrJSONBodyCannotBeEmpty
       \<and> notFound (ExtractValuesFromReader tokenize (Some (bytes_NewReader [])) sels) = sels
       \<and> valuesMap (ExtractValuesFromReader tokenize (Some (bytes_NewReader [])) sels) = Map.empty
       \<and> reports (err (ExtractValuesFromReader tokenize (Some (bytes_NewReader [])) sels))
           ErrJSONPathTraversalFailed
       \<and> \<not> reports (err (ExtractValuesFromReader tokenize (Some (bytes_NewReader [])) sels))
           ErrJSONBodyCannotBeEmpty
       \<and> reports (err (ExtractValuesFromReader tokenize None sels)) ErrJSONBodyCannotBeEmpty"
proof -
  let ?r = "bytes_NewReader []"
  let ?f = "\<lambda>s. extractSingleValue tokenize [] s []"
  let ?res = "ExtractValuesFromReader tokenize (Some ?r) sels"
  have ok: "failure ?r = None" "content ?r = []"
    by (simp_all add: bytes_NewReader_def)
  have fails: "\<exists>e. ?f s = Inl e \<and> errors_Is e ErrJSONPathTraversalFailed" for s
    using assms(2) by (rule empty_document_fails)
  have isl: "isl (?f s)" for s
    using fails [of s] by auto
  have nr: "?f s \<noteq> Inr v" for s v
    using isl [of s] by auto
  have res: "valuesMap ?res = Map.empty" "notFound ?res = sels"
    "err ?res = CombineErrs (collected_errors ?f sels)"
    unfolding ExtractValuesFromReader_valid [OF ok(1) assms(1)] collected_errors_eq ok(2)
    using isl nr by (auto simp: fun_eq_iff split: sum.splits)
  obtain s0 where s0: "s0 \<in> set sels"
    using assms(1) by (cases sels) auto
  obtain e0 where e0: "?f s0 = Inl e0" "errors_Is e0 ErrJSONPathTraversalFailed"
    using fails [of s0] by auto
  have mem: "e0 \<in> set (collected_errors ?f sels)"
    using s0 e0(1) by (rule collected_errors_member)
  then have err: "err ?res = Some (Joined (collected_errors ?f sels))"
    by (auto simp: res CombineErrs_def)
  have tf: "reports (err ?res) ErrJSONPathTraversalFailed"
    using mem e0(2) by (auto simp: err reports_def list_ex_iff)
  have nb: "\<not> reports (err ?res) ErrJSONBodyCannotBeEmpty"
  proof
    assume "reports (err ?res) ErrJSONBodyCannotBeEmpty"
    then obtain e where "e \<in> set (collected_errors ?f sels)" "errors_Is e ErrJSONBodyCannotBeEmpty"
      by (auto simp: err reports_def list_ex_iff)
    then obtain s where "?f s = Inl e"
      by (auto simp: collected_errors_def split: sum.splits)
    from this \<open>errors_Is e ErrJSONBodyCannotBeEmpty\<close>
    have "ErrJSONBodyCannotBeEmpty \<in> traversal_sentinels"
      by (rule extractSingleValue_errors)
    then show False
      by (simp add: traversal_sentinels_def)
  qed
  have bytes: "notFound (ExtractValuesFromBytes tokenize [] sels) = []"
    "valuesMap (ExtractValuesFromBytes tokenize [] sels) = Map.empty"
    "reports (err (ExtractValuesFromBytes tokenize [] sels)) ErrJSONPathTraversalFailed"
    "reports (err (ExtractValuesFromBytes tokenize [] sels)) ErrJSONBodyCannotBeEmpty"
    by (simp_all add: ExtractValuesFromBytes_def reports_def NewErr_def)
  have nil: "reports (err (ExtractValuesFromReader tokenize None sels)) ErrJSONBodyCannotBeEmpty"
    by (simp add: ExtractValuesFromReader_def reports_def NewErr_def)
  from assms(3) bytes res(1,2) tf nb nil show ?thesis
    by (simp add: ExtractValuesFromBytes_valid)
qed

text \<open>The amended C5 at the selector \<open>foo\<close>, and at the document \<open>{}\<close> for the first part.\<close>

theorem bytes_and_reader_witness:
  "[''foo''] \<noteq> [] \<and> tokenizer_for [] [] [] = [] \<and> ''{}'' \<noteq> []
   \<and> ExtractValuesFromBytes (tokenizer_for [] []) ''{}'' [''foo'']
       = ExtractValuesFromReader (tokenizer_for [] []) (Some (bytes_NewReader ''{}'')) [''foo'']
   \<and> notFound (ExtractValuesFromReader (tokenizer_for [] []) (Some (bytes_NewReader [])) [''foo''])
       = [''foo'']
   \<and> \<not> reports (err (ExtractValuesFromReader (tokenizer_for [] []) (Some (bytes_NewReader [])) [''foo'']))
           ErrJSONBodyCannotBeEmpty"
proof -
  have a: "[''foo''] \<noteq> []"
    by simp
  have b: "tokenizer_for [] [] [] = []"
    by (simp add: tokenizer_for_def)
  have c: "''{}'' \<noteq> []"
    by simp
  from bytes_and_reader [of "[''foo'']" "tokenizer_for [] []" "''{}''", OF a b c] a b c
  show ?thesis
    by simp
qed

text \<open>
  C5 as stated fails at the empty body and the selector \<open>foo\<close>: the not-found lists
  differ, and the streaming variant reports \<open>ErrJSONPathExpectedObjectAtSegment\<close>, not
  \<open>ErrJSONBodyCannotBeEmpty\<close>.
\<close>

theorem empty_body_counterexample:
  "notFound (ExtractValuesFromBytes (tokenizer_for [] []) [] [''foo'']) = []
   \<and> notFound (ExtractValuesFromReader (tokenizer_for [] []) (Some (bytes_NewReader [])) [''foo''])
       = [''foo'']
   \<and> reports (err (ExtractValuesFromBytes (tokenizer_for [] []) [] [''foo'']))
        ErrJSONBodyCannotBeEmpty
   \<and> \<not> reports (err (ExtractValuesFromReader (tokenizer_for [] []) (Some (bytes_NewReader [])) [''foo'']))
        ErrJSONBodyCannotBeEmpty
   \<and> reports (err (ExtractValuesFromReader (tokenizer_for [] []) (Some (bytes_NewReader [])) [''foo'']))
        ErrJSONPathExpectedObjectAtSegment"
  by code_simp

text \<open>
  C3 (as amended). For a non-empty selector whose first empty segment is preceded by the
  segments \<open>pre\<close>, these are navigated first. If one of them fails to navigate, its
  error is returned and \<open>ErrJSONPathContainsEmptySegment\<close> is not reported; if all of
  them navigate, extraction fails with \<open>ErrJSONPathTraversalFailed\<close> and
  \<open>ErrJSONPathContainsEmptySegment\<close>, with \<open>pre\<close> as the path progress. The
  calls made on the decoder are those of navigating \<open>pre\<close>: none when the selector
  begins with a dot.
\<close>

theorem empty_segment:
  assumes "sel \<noteq> []" and "strings_Split sel CHR ''.'' = pre @ [] # post" and "[] \<notin> set pre"
  shows "extractSingleValue tokenize rdr sel raw
           = empty_segment_outcome pre
               (extractSingleValue_loop (newExtractState (NewDecoder tokenize rdr) sel raw) 0 pre)
       \<and> (case extractSingleValue_loop (newExtractState (NewDecoder tokenize rdr) sel raw) 0 pre of
            (Some e, s') \<Rightarrow>
              \<not> fails_with (extractSingleValue tokenize rdr sel raw) ErrJSONPathContainsEmptySegment
          | (None, s') \<Rightarrow>
              fails_with (extractSingleValue tokenize rdr sel raw) ErrJSONPathContainsEmptySegment
              \<and> fails_with (extractSingleValue tokenize rdr sel raw) ErrJSONPathTraversalFailed
              \<and> pathProgress s' = pre)
       \<and> calls (decoder (snd (extractSingleValue_loop
              (newExtractState (NewDecoder tokenize rdr) sel raw) 0 (strings_Split sel CHR ''.''))))
           = calls (decoder (snd (extractSingleValue_loop
              (newExtractState (NewDecoder tokenize rdr) sel raw) 0 pre)))"
proof -
  let ?state = "newExtractState (NewDecoder tokenize rdr) sel raw"
  have segs: "segments ?state = pre @ [] # post"
    using assms(2) by (simp add: newExtractState_def)
  have loop: "extractSingleValue_loop ?state 0 (pre @ [] # post) =
     (case extractSingleValue_loop ?state 0 pre of
        (Some e, s') \<Rightarrow> (Some e, s')
      | (None, s') \<Rightarrow>
          (Some (enrichError (s'\<lparr>position := length pre\<rparr>)
                   [sentinelPart ErrJSONPathTraversalFailed,
                    sentinelPart ErrJSONPathContainsEmptySegment]),
           s'\<lparr>position := length pre\<rparr>))"
    by (simp add: extract_loop_append Let_def split: prod.splits option.splits)
  have a: "extractSingleValue tokenize rdr sel raw
           = empty_segment_outcome pre (extractSingleValue_loop ?state 0 pre)"
    using assms(1)
    by (simp add: extractSingleValue_def Let_def segs loop empty_segment_outcome_def
        split: prod.splits option.splits)
  have b: "case extractSingleValue_loop ?state 0 pre of
            (Some e, s') \<Rightarrow>
              \<not> fails_with (extractSingleValue tokenize rdr sel raw) ErrJSONPathContainsEmptySegment
          | (None, s') \<Rightarrow>
              fails_with (extractSingleValue tokenize rdr sel raw) ErrJSONPathContainsEmptySegment
              \<and> fails_with (extractSingleValue tokenize rdr sel raw) ErrJSONPathTraversalFailed
              \<and> pathProgress s' = pre"
  proof (cases "extractSingleValue_loop ?state 0 pre")
    case (Pair r s')
    show ?thesis
    proof (cases r)
      case None
      with Pair have "pathProgress s' = pathProgress ?state @ pre"
        by (intro extract_loop_progress [of _ 0]) simp
      then show ?thesis
        using Pair None
        by (simp add: a empty_segment_outcome_def fails_with_def errors_Is_enrichError
            newExtractState_def)
    next
      case (Some e)
      with Pair assms(3) have "\<not> errors_Is e ErrJSONPathContainsEmptySegment"
        by (intro extract_loop_errors_nonempty [of _ 0 pre e s']) simp_all
      then show ?thesis
        using Pair Some by (simp add: a empty_segment_outcome_def fails_with_def)
    qed
  qed
  have c: "calls (decoder (snd (extractSingleValue_loop ?state 0 (strings_Split sel CHR ''.''))))
      = calls (decoder (snd (extractSingleValue_loop ?state 0 pre)))"
    by (simp add: assms(2) loop split: prod.splits option.splits)
  from a b c show ?thesis
    by blast
qed

text \<open>The amended C3 at the document \<open>{"a":{"b":1}}\<close> and the selector \<open>a..b\<close>.\<close>

theorem empty_segment_witness:
  \<open>''a..b'' \<noteq> [] \<and> strings_Split ''a..b'' CHR ''.'' = [''a''] @ [] # [''b''] \<and> [] \<notin> set [''a'']
   \<and> extractSingleValue
        (tokenizer_for ''{"a":{"b":1}}''
           [TObjStart, TString ''a'', TObjStart, TString ''b'', TNumber ''1'', TObjEnd, TObjEnd])
        ''{"a":{"b":1}}'' ''a..b'' ''{"a":{"b":1}}''
       = empty_segment_outcome [''a'']
           (extractSingleValue_loop
              (newExtractState
                 (NewDecoder
                    (tokenizer_for ''{"a":{"b":1}}''
                       [TObjStart, TString ''a'', TObjStart, TString ''b'', TNumber ''1'', TObjEnd, TObjEnd])
                    ''{"a":{"b":1}}'')
                 ''a..b'' ''{"a":{"b":1}}'')
              0 [''a''])
   \<and> fails_with
        (extractSingleValue
           (tokenizer_for ''{"a":{"b":1}}''
              [TObjStart, TString ''a'', TObjStart, TString ''b'', TNumber ''1'', TObjEnd, TObjEnd])
           ''{"a":{"b":1}}'' ''a..b'' ''{"a":{"b":1}}'')
        ErrJSONPathContainsEmptySegment\<close>
proof -
  have a: "''a..b'' \<noteq> []"
    by simp
  have b: "strings_Split ''a..b'' CHR ''.'' = [''a''] @ [] # [''b'']"
    by simp
  have c: "[] \<notin> set [''a'']"
    by simp
  have d: \<open>fails_with
        (extractSingleValue
           (tokenizer_for ''{"a":{"b":1}}''
              [TObjStart, TString ''a'', TObjStart, TString ''b'', TNumber ''1'', TObjEnd, TObjEnd])
           ''{"a":{"b":1}}'' ''a..b'' ''{"a":{"b":1}}'')
        ErrJSONPathContainsEmptySegment\<close>
    by code_simp
  from empty_segment
      [where tokenize = \<open>tokenizer_for ''{"a":{"b":1}}''
           [TObjStart, TString ''a'', TObjStart, TString ''b'', TNumber ''1'', TObjEnd, TObjEnd]\<close>
         and rdr = \<open>''{"a":{"b":1}}''\<close> and raw = \<open>''{"a":{"b":1}}''\<close>, OF a b c] a b c d
  show ?thesis
    by blast
qed

text \<open>
  C3 as stated fails. For \<open>{"x":1}\<close> and \<open>a..b\<close> the segment \<open>a\<close> is navigated
  first and the error is \<open>ErrJSONPathSegmentNotFound\<close>, not
  \<open>ErrJSONPathContainsEmptySegment\<close>. For \<open>{"a":{"b":1}}\<close> and \<open>a..b\<close> the
  empty-segment error is raised after the segment \<open>a\<close> has been navigated on the
  decoder.
\<close>

theorem empty_segment_counterexample:
  \<open>fails_with
     (ExtractValueFromBytes
        (tokenizer_for ''{"x":1}'' [TObjStart, TString ''x'', TNumber ''1'', TObjEnd])
        ''{"x":1}'' ''a..b'')
     ErrJSONPathSegmentNotFound
   \<and> \<not> fails_with
     (ExtractValueFromBytes
        (tokenizer_for ''{"x":1}'' [TObjStart, TString ''x'', TNumber ''1'', TObjEnd])
        ''{"x":1}'' ''a..b'')
     ErrJSONPathContainsEmptySegment
   \<and> fails_with
     (ExtractValueFromBytes
        (tokenizer_for ''{"a":{"b":1}}''
           [TObjStart, TString ''a'', TObjStart, TString ''b'', TNumber ''1'', TObjEnd, TObjEnd])
        ''{"a":{"b":1}}'' ''a..b'')
     ErrJSONPathContainsEmptySegment
   \<and> calls (decoder (snd (extractSingleValue_loop
        (newExtractState
           (NewDecoder
              (tokenizer_for ''{"a":{"b":1}}''
                 [TObjStart, TString ''a'', TObjStart, TString ''b'', TNumber ''1'', TObjEnd, TObjEnd])
              ''{"a":{"b":1}}'')
           ''a..b'' ''{"a":{"b":1}}'')
        0 (strings_Split ''a..b'' CHR ''.''))))
     = [CallPeekKind, CallReadToken, CallPeekKind, CallReadToken]\<close>
  by code_simp

text \<open>
  C7 (as amended). With the cursor at an array of \<open>n\<close> elements: for \<open>0 \<le> i < n\<close>
  index navigation succeeds and leaves the cursor at element \<open>i\<close>, having skipped
  exactly \<open>i\<close> elements; for \<open>i \<ge> n\<close> it fails with \<open>ErrJSONIndexOutOfRange\<close>,
  reporting the target index and \<open>array_length = n\<close>. For \<open>i < 0\<close> it fails with
  \<open>ErrJSONIndexOutOfRange\<close> wherever the cursor is (\<open>s'\<close> is any session): the
  cursor is peeked once before the test, the kind peeked is not used and nothing is
  consumed.
\<close>

theorem index_navigation:
  assumes "toks (decoder s) = tokens_of (JArray vs) @ rest"
  shows "(0 \<le> i \<and> nat i < length vs \<longrightarrow>
            navigateArrayIndex s i =
              (None,
               s\<lparr>decoder :=
                   \<lparr>toks = tokens_of (vs ! nat i) @ elements_tokens (drop (Suc (nat i)) vs)
                           @ TArrEnd # rest,
                    calls = calls (decoder s) @ [CallPeekKind, CallReadToken] @ skipped (nat i)
                            @ [CallPeekKind]\<rparr>\<rparr>))
       \<and> (0 \<le> i \<and> length vs \<le> nat i \<longrightarrow>
            navigateArrayIndex s i =
              (Some (enrichError s
                       [sentinelPart ErrJSONPathTraversalFailed,
                        sentinelPart ErrJSONIndexOutOfRange,
                        PString ''target_index'', PInt i,
                        PString ''array_length'', PInt (int (length vs))]),
               s\<lparr>decoder :=
                   \<lparr>toks = TArrEnd # rest,
                    calls = calls (decoder s) @ [CallPeekKind, CallReadToken] @ skipped (length vs)
                            @ [CallPeekKind]\<rparr>\<rparr>))
       \<and> (i < 0 \<longrightarrow>
            navigateArrayIndex s' i =
              (Some (enrichError s'
                       [sentinelPart ErrJSONPathTraversalFailed,
                        sentinelPart ErrJSONIndexOutOfRange,
                        PString ''target_index'', PInt i]),
               s'\<lparr>decoder := \<lparr>toks = toks (decoder s'),
                               calls = calls (decoder s') @ [CallPeekKind]\<rparr>\<rparr>))
       \<and> count_list (skipped (nat i)) CallSkipValue = nat i
       \<and> context_value
            (enrichError s
               [sentinelPart ErrJSONPathTraversalFailed,
                sentinelPart ErrJSONIndexOutOfRange,
                PString ''target_index'', PInt i,
                PString ''array_length'', PInt (int (length vs))]) ''target_index''
           = Some (PInt i)
       \<and> context_value
            (enrichError s
               [sentinelPart ErrJSONPathTraversalFailed,
                sentinelPart ErrJSONIndexOutOfRange,
                PString ''target_index'', PInt i,
                PString ''array_length'', PInt (int (length vs))]) ''array_length''
           = Some (PInt (int (length vs)))"
proof -
  have a: "navigateArrayIndex s i =
              (None,
               s\<lparr>decoder :=
                   \<lparr>toks = tokens_of (vs ! nat i) @ elements_tokens (drop (Suc (nat i)) vs)
                           @ TArrEnd # rest,
                    calls = calls (decoder s) @ [CallPeekKind, CallReadToken] @ skipped (nat i)
                            @ [CallPeekKind]\<rparr>\<rparr>)"
    if "0 \<le> i" "nat i < length vs"
    using navigateArrayIndex_in_range [OF assms that(2)] that(1) by simp
  have b: "navigateArrayIndex s i =
              (Some (enrichError s
                       [sentinelPart ErrJSONPathTraversalFailed,
                        sentinelPart ErrJSONIndexOutOfRange,
                        PString ''target_index'', PInt i,
                        PString ''array_length'', PInt (int (length vs))]),
               s\<lparr>decoder :=
                   \<lparr>toks = TArrEnd # rest,
                    calls = calls (decoder s) @ [CallPeekKind, CallReadToken] @ skipped (length vs)
                            @ [CallPeekKind]\<rparr>\<rparr>)"
    if "0 \<le> i" "length vs \<le> nat i"
    using navigateArrayIndex_out_of_range [OF assms that(2)] that(1) by simp
  have c: "navigateArrayIndex s' i =
              (Some (enrichError s'
                       [sentinelPart ErrJSONPathTraversalFailed,
                        sentinelPart ErrJSONIndexOutOfRange,
                        PString ''target_index'', PInt i]),
               s'\<lparr>decoder := \<lparr>toks = toks (decoder s'),
                               calls = calls (decoder s') @ [CallPeekKind]\<rparr>\<rparr>)"
    if "i < 0"
    using that by (simp add: navigateArrayIndex_negative logged_def)
  from a b c count_skipped [of "nat i"]
    context_of_index_error(1) [of s i "int (length vs)"]
    context_of_index_error(2) [of s i "int (length vs)"]
  show ?thesis
    by blast
qed

text \<open>The amended C7 at the array \<open>[10,20,30]\<close> and the indices 1, 3 and -1.\<close>

theorem index_navigation_witness:
  "toks (decoder array_session) = tokens_of (JArray [JNumber ''10'', JNumber ''20'', JNumber ''30'']) @ []
   \<and> fst (navigateArrayIndex array_session 1) = None
   \<and> toks (decoder (snd (navigateArrayIndex array_session 1))) = [TNumber ''20'', TNumber ''30'', TArrEnd]
   \<and> count_list (calls (decoder (snd (navigateArrayIndex array_session 1)))) CallSkipValue = 1
   \<and> fst (navigateArrayIndex array_session 3) =
         Some (enrichError array_session
                 [sentinelPart ErrJSONPathTraversalFailed,
                  sentinelPart ErrJSONIndexOutOfRange,
                  PString ''target_index'', PInt 3,
                  PString ''array_length'', PInt 3])
   \<and> fst (navigateArrayIndex array_session (- 1)) =
         Some (enrichError array_session
                 [sentinelPart ErrJSONPathTraversalFailed,
                  sentinelPart ErrJSONIndexOutOfRange,
                  PString ''target_index'', PInt (- 1)])
   \<and> calls (decoder (snd (navigateArrayIndex array_session (- 1)))) = [CallPeekKind]"
proof -
  have h: "toks (decoder array_session)
      = tokens_of (JArray [JNumber ''10'', JNumber ''20'', JNumber ''30'']) @ []"
    by (simp add: array_session_def newExtractState_def NewDecoder_def tokenizer_for_def)
  have c0: "calls (decoder array_session) = []"
    by (simp add: array_session_def newExtractState_def NewDecoder_def)
  from index_navigation [OF h, of 1] have one: "navigateArrayIndex array_session 1 =
      (None, array_session\<lparr>decoder :=
          \<lparr>toks = [TNumber ''20'', TNumber ''30'', TArrEnd],
           calls = [CallPeekKind, CallReadToken, CallPeekKind, CallSkipValue, CallPeekKind]\<rparr>\<rparr>)"
    by (simp add: c0)
  from index_navigation [OF h, of 3] have three: "fst (navigateArrayIndex array_session 3) =
         Some (enrichError array_session
                 [sentinelPart ErrJSONPathTraversalFailed,
                  sentinelPart ErrJSONIndexOutOfRange,
                  PString ''target_index'', PInt 3,
                  PString ''array_length'', PInt 3])"
    by simp
  from index_navigation [OF h, of "- 1" array_session]
  have neg: "navigateArrayIndex array_session (- 1) =
         (Some (enrichError array_session
                 [sentinelPart ErrJSONPathTraversalFailed,
                  sentinelPart ErrJSONIndexOutOfRange,
                  PString ''target_index'', PInt (- 1)]),
          array_session\<lparr>decoder := \<lparr>toks = toks (decoder array_session), calls = [CallPeekKind]\<rparr>\<rparr>)"
    by (simp add: c0)
  from h one three neg show ?thesis
    by simp
qed

text \<open>
  C7 as stated fails: a negative index does not leave the cursor unconsulted. The
  call of \<open>PeekKind\<close> comes first in \<open>navigateArrayIndex\<close>, before the test
  \<open>targetIdx < 0\<close>.
\<close>

theorem negative_index_peeks_counterexample:
  "calls (decoder array_session) = []
   \<and> calls (decoder (snd (navigateArrayIndex array_session (- 1)))) = [CallPeekKind]"
  by code_simp

text \<open>
  C8, at the input where the code departs from it. The object \<open>{"a":0,"\"x\"":1}\<close>
  contains the key \<open>"x"\<close> (with its quotes), so the selector \<open>"x"\<close> resolves to
  \<open>1\<close>; key navigation compares the key without its quotes, fails with
  \<open>ErrJSONPathSegmentNotFound\<close> and reports the keys \<open>a\<close> and \<open>x\<close>. The selector
  \<open>x\<close>, a key the object does not contain, is found.
\<close>

theorem quoted_key_not_found:
  \<open>map_of [(''a'', JNumber ''0''), (''"x"'', JNumber ''1'')] ''"x"'' = Some (JNumber ''1'')
   \<and> resolves spec_classify (JObject [(''a'', JNumber ''0''), (''"x"'', JNumber ''1'')]) ''"x"''
        (JNumber ''1'')
   \<and> toks (decoder quoted_session)
        = tokens_of (JObject [(''a'', JNumber ''0''), (''"x"'', JNumber ''1'')])
   \<and> fst (navigateObjectKey quoted_session ''"x"'') =
        Some (enrichError quoted_session
                [sentinelPart ErrJSONPathTraversalFailed,
                 sentinelPart ErrJSONPathSegmentNotFound,
                 PString ''missing_key'', PString ''"x"'',
                 PString ''available_keys'', PStrings [''a'', ''x'']])
   \<and> fails_with
        (ExtractValueFromBytes (tokenizer_for quoted_document quoted_tokens) quoted_document ''"x"'')
        ErrJSONPathSegmentNotFound
   \<and> ExtractValueFromBytes (tokenizer_for quoted_document quoted_tokens) quoted_document ''x''
        = Inr (AFloat64 ''1'')\<close>
  by code_simp



end
